theory Spec2Isabelle
  imports Complex_Main "HOL-Library.Word"
begin

section \<open>Scalars\<close>

text \<open>
  The C++ type \<open>double\<close> is modelled by \<open>real\<close> and \<open>std::complex<double>\<close> by
  \<open>complex\<close>. The properties below are about control flow, copying of values and
  exact algebraic identities of the formulas in the source; none of them depends on
  rounding. Raw C arrays (\<open>double *\<close>) are functions from the index to the entry.
\<close>

type_synonym vec = "nat \<Rightarrow> real"

section \<open>hermes2d tutorial: InitialSolutionHeatTransfer\<close>

text \<open>
  \<open>initial_condition.cpp\<close>: \<open>derivatives\<close> writes \<open>dx\<close> and \<open>dy\<close> through its
  reference parameters; the model returns the pair \<open>(dx, dy)\<close>.
\<close>

definition InitialSolutionHeatTransfer_derivatives :: "real \<Rightarrow> real \<Rightarrow> real \<times> real" where
  "InitialSolutionHeatTransfer_derivatives x y = ((y + 10) / 10, (x + 10) / 10)"

definition InitialSolutionHeatTransfer_value :: "real \<Rightarrow> real \<Rightarrow> real" where
  "InitialSolutionHeatTransfer_value x y = (x + 10) * (y + 10) / 100"

section \<open>hermes-common: the PETSc interface\<close>

text \<open>
  \<open>petsc_solver.cpp\<close> is compiled either against a PETSc with real scalars or, when
  \<open>PETSC_USE_COMPLEX\<close> is defined, against one with complex scalars. The class
  templates are instantiated for \<open>Scalar = double\<close> and \<open>Scalar = std::complex<double>\<close>
  in both builds. \<open>PetscScalar\<close> is \<open>double\<close> in the real build and complex in the
  complex build; the model holds it as a \<open>complex\<close> in both (a real scalar has imaginary
  part 0).
\<close>

datatype petsc_config = Real_Scalars | Complex_Scalars

datatype ScalarType = T_double | T_complex

datatype Scalar = Dbl real | Cpx complex

datatype hermes_exception = Exception string

type_synonym PetscScalar = complex

text \<open>
  A PETSc matrix object: its dimensions and the entries it stores. Rows and columns are
  \<open>PetscInt\<close>, which is a signed 32-bit integer, or a signed 64-bit integer in a PETSc
  configured with 64-bit indices.
\<close>

record Mat =
  mat_rows :: int
  mat_cols :: int
  mat_entries :: "int \<times> int \<Rightarrow> PetscScalar option"

type_synonym Vec = "nat \<Rightarrow> PetscScalar"

datatype InsertMode = INSERT_VALUES | ADD_VALUES

datatype PetscInt_width = PetscInt_32 | PetscInt_64

record PetscMatrix =
  matrix :: Mat
  msize :: nat
  nnz :: nat
  inited :: bool

record PetscVector =
  vec :: Vec
  vsize :: nat

text \<open>The two overloads of \<open>to_petsc\<close>, in each build.\<close>

fun to_petsc :: "petsc_config \<Rightarrow> Scalar \<Rightarrow> hermes_exception + PetscScalar" where
  "to_petsc Complex_Scalars (Dbl x) = Inr (Complex x 0)"
| "to_petsc Complex_Scalars (Cpx z) = Inr z"
| "to_petsc Real_Scalars (Dbl x) = Inr (complex_of_real x)"
| "to_petsc Real_Scalars (Cpx z) = Inl (Exception ''PETSc with complex numbers support required.'')"

text \<open>The test \<open>v != 0.0\<close> of \<open>PetscMatrix::add\<close>, at either scalar type.\<close>

fun nonzero :: "Scalar \<Rightarrow> bool" where
  "nonzero (Dbl x) = (x \<noteq> 0)"
| "nonzero (Cpx z) = (z \<noteq> 0)"

text \<open>
  The casts \<open>(PetscInt)m\<close> and \<open>(PetscInt)n\<close> of the \<open>unsigned int\<close> parameters of
  \<open>add\<close>, which are 32 bits wide: to a signed 32-bit integer the cast reinterprets the
  bits, so that an index from \<open>2^31\<close> on becomes negative; to a signed 64-bit integer
  it keeps the value.
\<close>

definition to_PetscInt :: "PetscInt_width \<Rightarrow> 32 word \<Rightarrow> int" where
  "to_PetscInt w m = (case w of PetscInt_32 \<Rightarrow> sint m | PetscInt_64 \<Rightarrow> uint m)"

definition PETSC_ERR_ARG_OUTOFRANGE :: int where
  "PETSC_ERR_ARG_OUTOFRANGE = 63"

text \<open>
  Modelled from the spec: the sparse matrix accumulator of the external linear-algebra
  backend (spec sections 5 and 6), here PETSc's \<open>MatSetValue\<close>, which is not part of
  the sources. With \<open>ADD_VALUES\<close> the value is added to the entry (an absent entry counts
  as zero); with \<open>INSERT_VALUES\<close> it replaces the entry; no other entry changes. The spec
  gives only the accumulation. For an index outside the matrix the model follows PETSc's
  documentation: a negative row or column is ignored, and a row or column at or beyond
  the dimension is an argument-out-of-range error that leaves the matrix as it is. The
  result is the error code and the matrix. The sum is the exact sum of the two values,
  where PETSc adds two doubles.
\<close>

definition MatSetValue :: "Mat \<Rightarrow> int \<Rightarrow> int \<Rightarrow> PetscScalar \<Rightarrow> InsertMode \<Rightarrow> int \<times> Mat" where
  "MatSetValue A i j v mode =
     (if i < 0 \<or> j < 0 then (0, A)
      else if mat_rows A \<le> i \<or> mat_cols A \<le> j then (PETSC_ERR_ARG_OUTOFRANGE, A)
      else (0, A\<lparr>mat_entries :=
        (case mode of
           INSERT_VALUES \<Rightarrow> (mat_entries A)((i, j) \<mapsto> v)
         | ADD_VALUES \<Rightarrow> (mat_entries A)((i, j) \<mapsto>
             (case mat_entries A (i, j) of None \<Rightarrow> v | Some a \<Rightarrow> a + v)))\<rparr>))"

text \<open>The entry of a matrix as \<open>MatGetValues\<close> reads it: zero where nothing is stored.\<close>

definition entry :: "Mat \<Rightarrow> int \<Rightarrow> int \<Rightarrow> PetscScalar" where
  "entry A i j = (case mat_entries A (i, j) of None \<Rightarrow> 0 | Some a \<Rightarrow> a)"

text \<open>
  \<open>PetscMatrix<Scalar>::add(unsigned int m, unsigned int n, Scalar v)\<close>. An exception
  thrown by \<open>to_petsc\<close> leaves the function before \<open>MatSetValue\<close> is called. The source
  does not look at the error code that \<open>MatSetValue\<close> returns.
\<close>

definition PetscMatrix_add ::
  "petsc_config \<Rightarrow> PetscInt_width \<Rightarrow> 32 word \<Rightarrow> 32 word \<Rightarrow> Scalar \<Rightarrow> PetscMatrix \<Rightarrow>
     hermes_exception + PetscMatrix" where
  "PetscMatrix_add cfg w m n v A =
     (if nonzero v then
        (case to_petsc cfg v of
           Inl e \<Rightarrow> Inl e
         | Inr pv \<Rightarrow>
             Inr (A\<lparr>matrix :=
               snd (MatSetValue (matrix A) (to_PetscInt w m) (to_PetscInt w n) pv ADD_VALUES)\<rparr>))
      else Inr A)"

text \<open>
  The value of a \<open>Scalar\<close> as a PETSc scalar; the scalars that \<open>to_petsc\<close> converts in
  a build; the index pairs that the cast leaves inside a matrix; and a 2 by 2 matrix with
  nothing stored.
\<close>

definition scalar_value :: "Scalar \<Rightarrow> PetscScalar" where
  "scalar_value v = (case v of Dbl x \<Rightarrow> complex_of_real x | Cpx z \<Rightarrow> z)"

definition supported :: "petsc_config \<Rightarrow> Scalar \<Rightarrow> bool" where
  "supported cfg v = (case v of Dbl x \<Rightarrow> True | Cpx z \<Rightarrow> cfg = Complex_Scalars)"

definition inside :: "PetscInt_width \<Rightarrow> Mat \<Rightarrow> 32 word \<Rightarrow> 32 word \<Rightarrow> bool" where
  "inside w A m n =
     (0 \<le> to_PetscInt w m \<and> to_PetscInt w m < mat_rows A \<and>
      0 \<le> to_PetscInt w n \<and> to_PetscInt w n < mat_cols A)"

definition empty_matrix :: PetscMatrix where
  "empty_matrix =
     \<lparr>matrix = \<lparr>mat_rows = 2, mat_cols = 2, mat_entries = Map.empty\<rparr>,
      msize = 2, nnz = 0, inited = True\<rparr>"

text \<open>
  The overloads of \<open>vec_get_value\<close>: copy \<open>ni\<close> entries of a PETSc vector into an
  array of \<open>Scalar\<close>. The callers pass the index map \<open>idx[i] = i\<close>.
\<close>

fun vec_get_value :: "petsc_config \<Rightarrow> ScalarType \<Rightarrow> Vec \<Rightarrow> nat \<Rightarrow> hermes_exception + Scalar list" where
  "vec_get_value Complex_Scalars T_complex x ni = Inr (map (\<lambda>i. Cpx (x i)) [0..<ni])"
| "vec_get_value Complex_Scalars T_double x ni = Inr (map (\<lambda>i. Dbl (Re (x i))) [0..<ni])"
| "vec_get_value Real_Scalars T_double x ni = Inr (map (\<lambda>i. Dbl (Re (x i))) [0..<ni])"
| "vec_get_value Real_Scalars T_complex x ni =
     Inl (Exception ''PETSc with complex numbers support required.'')"

record PetscLinearMatrixSolver =
  sln :: "Scalar list"

text \<open>
  \<open>PetscLinearMatrixSolver<Scalar>::solve()\<close>. \<open>KSPSolve\<close> is the external solver: it
  is a parameter that returns its error code \<open>ec\<close> and the contents of the vector
  \<open>x\<close> it leaves behind. The source stores \<open>ec\<close> and never reads it (the test
  \<open>if (ec) return false\<close> is commented out under a FIXME, and the function returns
  \<open>void\<close>). The time measurement is left out.
\<close>

definition PetscLinearMatrixSolver_solve ::
  "petsc_config \<Rightarrow> ScalarType \<Rightarrow> (Mat \<Rightarrow> Vec \<Rightarrow> int \<times> Vec) \<Rightarrow> PetscMatrix \<Rightarrow> PetscVector \<Rightarrow>
     PetscLinearMatrixSolver \<Rightarrow> hermes_exception + PetscLinearMatrixSolver" where
  "PetscLinearMatrixSolver_solve cfg T KSPSolve m rhs s =
     (let (ec, x) = KSPSolve (matrix m) (vec rhs) in
      case vec_get_value cfg T x (msize m) of
        Inl e \<Rightarrow> Inl e
      | Inr y \<Rightarrow> Inr (s\<lparr>sln := y\<rparr>))"

section \<open>hermes1d: the Newton loops of the adaptivity test\<close>

text \<open>
  \<open>main.cpp\<close> of \<open>adapt-exact-quadr-H1\<close> runs the same Newton loop three times (coarse
  mesh, reference mesh, coarse mesh again inside the adaptivity loop). The library calls
  of the loop are not part of the sources and are parameters of the model:
  \<open>Space::get_num_dofs\<close>, \<open>DiscreteProblem::assemble\<close> (which reads the coefficients
  held in the Space and fills the matrix and the right-hand side), \<open>Solver::solve\<close>
  with \<open>get_solution\<close> (\<open>None\<close> when \<open>solve\<close> returns false),
  \<open>vector_to_solution\<close> and \<open>solution_to_vector\<close>.
\<close>

record ('sp, 'mat) newton_env =
  env_get_num_dofs :: "'sp \<Rightarrow> int"
  env_assemble :: "'sp \<Rightarrow> 'mat \<times> vec"
  env_solve :: "'mat \<Rightarrow> vec \<Rightarrow> vec option"
  env_vector_to_solution :: "vec \<Rightarrow> 'sp \<Rightarrow> 'sp"
  env_solution_to_vector :: "'sp \<Rightarrow> vec \<Rightarrow> vec"

text \<open>The parameters of Newton's method in \<open>main.cpp\<close>.\<close>

definition NEWTON_TOL_COARSE :: real where
  "NEWTON_TOL_COARSE = 1 / 1000000"

definition NEWTON_TOL_REF :: real where
  "NEWTON_TOL_REF = 1 / 1000000"

definition NEWTON_MAX_ITER :: int where
  "NEWTON_MAX_ITER = 150"

text \<open>
  \<open>error(...)\<close> ends the program. The two calls of the loop are the outcomes
  \<open>SolverFailure\<close> ("Matrix solver failed.") and \<open>DivergenceError\<close> ("Newton method
  did not converge."); leaving the loop by \<open>break\<close> is \<open>Converged\<close>.
\<close>

datatype newton_outcome = Converged | SolverFailure | DivergenceError

record 'sp newton_state =
  space :: 'sp
  coeff_vec :: vec
  it :: int

datatype 'sp step_result = Exit newton_outcome "'sp newton_state" | Continue "'sp newton_state"

text \<open>\<open>for(int i=0; i<ndof; i++) res_norm_squared += rhs->get(i)*rhs->get(i);\<close>\<close>

definition res_norm_squared :: "int \<Rightarrow> vec \<Rightarrow> real" where
  "res_norm_squared ndof rhs = fold (\<lambda>i acc. acc + rhs i * rhs i) [0..<nat ndof] 0"

text \<open>\<open>for(int i=0; i<ndof; i++) rhs->set(i, -rhs->get(i));\<close>\<close>

definition negate_rhs :: "int \<Rightarrow> vec \<Rightarrow> vec" where
  "negate_rhs ndof rhs = fold (\<lambda>i r. r(i := - r i)) [0..<nat ndof] rhs"

text \<open>\<open>for (int i = 0; i < ndof; i++) coeff_vec[i] += solver->get_solution()[i];\<close>\<close>

definition add_correction :: "int \<Rightarrow> vec \<Rightarrow> vec \<Rightarrow> vec" where
  "add_correction ndof cv sol = fold (\<lambda>i c. c(i := c i + sol i)) [0..<nat ndof] cv"

text \<open>One pass through the body of \<open>while (1)\<close>, in the order of the source.\<close>

definition newton_iteration ::
  "('sp, 'mat) newton_env \<Rightarrow> real \<Rightarrow> int \<Rightarrow> 'sp newton_state \<Rightarrow> 'sp step_result" where
  "newton_iteration E tol max_iter st =
     (let ndof = env_get_num_dofs E (space st);
          (mat, rhs) = env_assemble E (space st)
      in if res_norm_squared ndof rhs < tol * tol \<and> it st > 1 then Exit Converged st
         else
           (case env_solve E mat (negate_rhs ndof rhs) of
              None \<Rightarrow> Exit SolverFailure st
            | Some sol \<Rightarrow>
                (let cv = add_correction ndof (coeff_vec st) sol
                 in if it st \<ge> max_iter then Exit DivergenceError (st\<lparr>coeff_vec := cv\<rparr>)
                    else Continue \<lparr>space = env_vector_to_solution E cv (space st),
                                   coeff_vec = cv, it = it st + 1\<rparr>)))"

function newton_loop ::
  "('sp, 'mat) newton_env \<Rightarrow> real \<Rightarrow> int \<Rightarrow> 'sp newton_state \<Rightarrow> newton_outcome \<times> 'sp newton_state" where
  "newton_loop E tol max_iter st =
     (case newton_iteration E tol max_iter st of
        Exit out st' \<Rightarrow> (out, st')
      | Continue st' \<Rightarrow> newton_loop E tol max_iter st')"
  by pat_completeness auto
termination
proof (relation "measure (\<lambda>(E, tol, max_iter, st). nat (max_iter - it st))")
  show "wf (measure (\<lambda>(E, tol, max_iter, st). nat (max_iter - it st)))"
    by simp
next
  fix E :: "('sp, 'mat) newton_env" and tol :: real and max_iter :: int
    and st st' :: "'sp newton_state"
  assume "newton_iteration E tol max_iter st = Continue st'"
  then have "it st < max_iter \<and> it st' = it st + 1"
    by (auto simp: newton_iteration_def Let_def split: prod.splits if_splits option.splits)
  then show "((E, tol, max_iter, st'), (E, tol, max_iter, st))
      \<in> measure (\<lambda>(E, tol, max_iter, st). nat (max_iter - it st))"
    by simp
qed

text \<open>
  A whole Newton run as \<open>main\<close> starts it: the coefficient vector is filled from the
  Space by \<open>solution_to_vector\<close> and the counter starts at 1.
\<close>

definition newton ::
  "('sp, 'mat) newton_env \<Rightarrow> real \<Rightarrow> int \<Rightarrow> 'sp \<Rightarrow> vec \<Rightarrow> newton_outcome \<times> 'sp newton_state" where
  "newton E tol max_iter sp cv0 =
     newton_loop E tol max_iter \<lparr>space = sp, coeff_vec = env_solution_to_vector E sp cv0, it = 1\<rparr>"

text \<open>
  The test of convergence and the linear system of one pass, as functions of the Space
  the pass starts from.
\<close>

definition residual_small :: "('sp, 'mat) newton_env \<Rightarrow> real \<Rightarrow> 'sp \<Rightarrow> bool" where
  "residual_small E tol sp =
     (res_norm_squared (env_get_num_dofs E sp) (snd (env_assemble E sp)) < tol * tol)"

definition linear_solve :: "('sp, 'mat) newton_env \<Rightarrow> 'sp \<Rightarrow> vec option" where
  "linear_solve E sp =
     env_solve E (fst (env_assemble E sp))
       (negate_rhs (env_get_num_dofs E sp) (snd (env_assemble E sp)))"

text \<open>
  A state is written back when its Space is the result of \<open>vector_to_solution\<close> on its
  coefficient vector.
\<close>

definition written_back :: "('sp, 'mat) newton_env \<Rightarrow> 'sp newton_state \<Rightarrow> bool" where
  "written_back E s = (\<exists>sp. space s = env_vector_to_solution E (coeff_vec s) sp)"

text \<open>
  A concrete instance of the collaborators, to run the loop on: one unknown \<open>u\<close>, kept
  in the Space as it is, residual \<open>F(u) = 2u - 2\<close> and Jacobian \<open>2\<close>; the linear
  solver divides by the Jacobian and fails on a zero one.
\<close>

definition one_dof_env :: "(real, real) newton_env" where
  "one_dof_env =
     \<lparr>env_get_num_dofs = (\<lambda>u. 1),
      env_assemble = (\<lambda>u. (2, (\<lambda>i. if i = 0 then 2 * u - 2 else 0))),
      env_solve = (\<lambda>J r. if J = 0 then None else Some (\<lambda>i. r i / J)),
      env_vector_to_solution = (\<lambda>cv u. cv 0),
      env_solution_to_vector = (\<lambda>u cv. cv(0 := u))\<rparr>"

section \<open>hermes1d: Space and Elements\<close>

text \<open>
  The class \<open>Space\<close>, its Elements and the library functions \<open>assign_dofs\<close>,
  \<open>construct_refined_space\<close>, \<open>vector_to_solution\<close> and \<open>solution_to_vector\<close> are
  called by \<open>main.cpp\<close> but are not part of the sources. This section models them from
  the spec (sections 3 and 4.1).

  Modelled from the spec: the data model. An Element has its interval end points, its
  polynomial degree \<open>p\<close>, and for every equation component \<open>c\<close> a local coefficient
  vector of length \<open>p + 1\<close>: \<open>coeffs (c, j)\<close> for \<open>j \<le> p\<close>, with the global index
  \<open>dofs (c, j)\<close> of each coefficient (\<open>-1\<close> for a coefficient that is not a free
  unknown). An Element is active, or inactive with its two children, which it keeps. A
  Space owns the ordered sequence of its Elements, the number of equations, the kind and
  value of the boundary condition at either end per equation, and the count of degrees
  of freedom.
\<close>

datatype bc = Dirichlet real | Neumann

record Element_data =
  x_left :: real
  x_right :: real
  p :: nat
  coeffs :: "nat \<times> nat \<Rightarrow> real"
  dofs :: "nat \<times> nat \<Rightarrow> int"

datatype Element = Active Element_data | Inactive Element_data Element Element

record Space =
  left_endpoint :: real
  right_endpoint :: real
  n_eq :: nat
  bc_left :: "nat \<Rightarrow> bc"
  bc_right :: "nat \<Rightarrow> bc"
  elements :: "Element list"
  n_dof :: nat

datatype config_error = ConfigurationError

text \<open>
  Modelled from the spec: the constructor \<open>Space(A, B, NELEM, P_init, NEQ)\<close> as
  \<open>main.cpp\<close> calls it: \<open>NELEM\<close> active Elements of equal width and degree
  \<open>P_init\<close>, no Dirichlet condition yet; a ConfigurationError when \<open>NEQ\<close> exceeds
  the compiled-in limit, which is a parameter.
\<close>

definition Space_new :: "nat \<Rightarrow> real \<Rightarrow> real \<Rightarrow> nat \<Rightarrow> nat \<Rightarrow> nat \<Rightarrow> config_error + Space" where
  "Space_new max_eqn_num A B nelem p_init neq =
     (if neq > max_eqn_num then Inl ConfigurationError
      else Inr \<lparr>left_endpoint = A, right_endpoint = B, n_eq = neq,
                bc_left = (\<lambda>c. Neumann), bc_right = (\<lambda>c. Neumann),
                elements = map (\<lambda>i. Active
                    \<lparr>x_left = A + real i * (B - A) / real nelem,
                     x_right = A + real (Suc i) * (B - A) / real nelem,
                     p = p_init, coeffs = (\<lambda>x. 0), dofs = (\<lambda>x. - 1)\<rparr>) [0..<nelem],
                n_dof = 0\<rparr>)"

definition set_bc_left_dirichlet :: "nat \<Rightarrow> real \<Rightarrow> Space \<Rightarrow> Space" where
  "set_bc_left_dirichlet eq_n val S = S\<lparr>bc_left := (bc_left S)(eq_n := Dirichlet val)\<rparr>"

definition set_bc_right_dirichlet :: "nat \<Rightarrow> real \<Rightarrow> Space \<Rightarrow> Space" where
  "set_bc_right_dirichlet eq_n val S = S\<lparr>bc_right := (bc_right S)(eq_n := Dirichlet val)\<rparr>"

text \<open>The active Elements of a Space, left to right.\<close>

fun active_elements :: "Element \<Rightarrow> Element_data list" where
  "active_elements (Active d) = [d]"
| "active_elements (Inactive d l r) = active_elements l @ active_elements r"

definition space_active :: "Space \<Rightarrow> Element_data list" where
  "space_active S = concat (map active_elements (elements S))"

definition get_n_active_elem :: "Space \<Rightarrow> nat" where
  "get_n_active_elem S = length (space_active S)"

definition get_num_dofs :: "Space \<Rightarrow> nat" where
  "get_num_dofs S = n_dof S"

text \<open>
  A walk over the active Elements from left to right that threads a state through and
  may update each of them; inactive Elements are passed through to their children.
\<close>

fun walk_active ::
  "('s \<Rightarrow> Element_data \<Rightarrow> 's \<times> Element_data) \<Rightarrow> 's \<Rightarrow> Element \<Rightarrow> 's \<times> Element" where
  "walk_active f s (Active d) = (case f s d of (s1, d') \<Rightarrow> (s1, Active d'))"
| "walk_active f s (Inactive d l r) =
     (case walk_active f s l of (s1, l') \<Rightarrow>
        (case walk_active f s1 r of (s2, r') \<Rightarrow> (s2, Inactive d l' r')))"

fun walk_elements ::
  "('s \<Rightarrow> Element_data \<Rightarrow> 's \<times> Element_data) \<Rightarrow> 's \<Rightarrow> Element list \<Rightarrow> 's \<times> Element list" where
  "walk_elements f s [] = (s, [])"
| "walk_elements f s (e # es) =
     (case walk_active f s e of (s1, e') \<Rightarrow>
        (case walk_elements f s1 es of (s2, es') \<Rightarrow> (s2, e' # es')))"

fun map_active :: "(Element_data \<Rightarrow> Element_data) \<Rightarrow> Element \<Rightarrow> Element" where
  "map_active f (Active d) = Active (f d)"
| "map_active f (Inactive d l r) = Inactive d (map_active f l) (map_active f r)"

text \<open>
  The local coefficients of an Element: one per equation component and local index
  \<open>0..p\<close>.
\<close>

definition slots :: "nat \<Rightarrow> Element_data \<Rightarrow> (nat \<times> nat) list" where
  "slots neq d = List.product [0..<neq] [0..<Suc (p d)]"

text \<open>
  Modelled from the spec: the coefficients constrained by a Dirichlet condition at a
  domain end point. The spec does not say which local coefficient belongs to an end
  point; the model takes local index 0 of the first active Element for the left end and
  local index 1 of the last active Element for the right end (the two vertex functions
  of the hierarchic basis). The result is the fixed value of a constrained coefficient.
\<close>

definition dirichlet_value :: "Space \<Rightarrow> bool \<Rightarrow> bool \<Rightarrow> nat \<times> nat \<Rightarrow> real option" where
  "dirichlet_value S is_first is_last x =
     (case x of (c, j) \<Rightarrow>
        if j = 0 \<and> is_first then (case bc_left S c of Dirichlet v \<Rightarrow> Some v | Neumann \<Rightarrow> None)
        else if j = 1 \<and> is_last then (case bc_right S c of Dirichlet v \<Rightarrow> Some v | Neumann \<Rightarrow> None)
        else None)"

text \<open>
  Modelled from the spec: \<open>assign_dofs\<close> "walks active Elements left to right in domain
  order, assigns each free local coefficient a unique increasing global index,
  skips/fixes coefficients constrained by a Dirichlet boundary condition at a domain
  endpoint, returns total free dof count". The state of the walk is the number of active
  Elements passed and the next free index.
\<close>

definition assign_slot ::
  "Space \<Rightarrow> bool \<Rightarrow> bool \<Rightarrow> nat \<times> nat \<Rightarrow> nat \<times> Element_data \<Rightarrow> nat \<times> Element_data" where
  "assign_slot S is_first is_last x st =
     (case st of (n, d) \<Rightarrow>
        (case dirichlet_value S is_first is_last x of
           Some v \<Rightarrow> (n, d\<lparr>coeffs := (coeffs d)(x := v), dofs := (dofs d)(x := - 1)\<rparr>)
         | None \<Rightarrow> (Suc n, d\<lparr>dofs := (dofs d)(x := int n)\<rparr>)))"

definition assign_element ::
  "Space \<Rightarrow> nat \<Rightarrow> nat \<times> nat \<Rightarrow> Element_data \<Rightarrow> (nat \<times> nat) \<times> Element_data" where
  "assign_element S n_act st d =
     (case st of (k, n) \<Rightarrow>
        (case fold (assign_slot S (k = 0) (Suc k = n_act)) (slots (n_eq S) d) (n, d) of
           (n', d') \<Rightarrow> ((Suc k, n'), d')))"

definition assign_dofs :: "Space \<Rightarrow> nat \<times> Space" where
  "assign_dofs S =
     (case walk_elements (assign_element S (get_n_active_elem S)) (0, 0) (elements S) of
        ((k, n), es) \<Rightarrow> (n, S\<lparr>elements := es, n_dof := n\<rparr>))"

text \<open>
  The two numbers the spec compares the count with: the local coefficients of all active
  Elements, and those of them that a Dirichlet condition constrains.
\<close>

definition total_local_coefficients :: "Space \<Rightarrow> nat" where
  "total_local_coefficients S = sum_list (map (\<lambda>d. n_eq S * Suc (p d)) (space_active S))"

definition n_dirichlet_constrained :: "Space \<Rightarrow> nat" where
  "n_dirichlet_constrained S =
     sum_list (map (\<lambda>(k, d). length (filter
         (\<lambda>x. dirichlet_value S (k = 0) (Suc k = get_n_active_elem S) x \<noteq> None)
         (slots (n_eq S) d)))
       (List.enumerate 0 (space_active S)))"

text \<open>
  Modelled from the spec: \<open>vector_to_solution\<close> copies the coefficient vector, which is
  "index-aligned with the global dof numbering", into the Elements' local storage, and
  \<open>solution_to_vector\<close> extracts it from there into the array it is given.
\<close>

definition vector_to_solution_element :: "nat \<Rightarrow> vec \<Rightarrow> Element_data \<Rightarrow> Element_data" where
  "vector_to_solution_element neq y d =
     fold (\<lambda>x e. if 0 \<le> dofs e x then e\<lparr>coeffs := (coeffs e)(x := y (nat (dofs e x)))\<rparr> else e)
       (slots neq d) d"

definition vector_to_solution :: "vec \<Rightarrow> Space \<Rightarrow> Space" where
  "vector_to_solution y S =
     S\<lparr>elements := map (map_active (vector_to_solution_element (n_eq S) y)) (elements S)\<rparr>"

definition solution_to_vector_element :: "nat \<Rightarrow> Element_data \<Rightarrow> vec \<Rightarrow> vec" where
  "solution_to_vector_element neq d y =
     fold (\<lambda>x v. if 0 \<le> dofs d x then v(nat (dofs d x) := coeffs d x) else v) (slots neq d) y"

definition solution_to_vector :: "Space \<Rightarrow> vec \<Rightarrow> vec" where
  "solution_to_vector S y = fold (solution_to_vector_element (n_eq S)) (space_active S) y"

text \<open>
  Modelled from the spec: \<open>construct_refined_space\<close> makes a new Space in which every
  active Element of the coarse Space is split into two half-width children
  (h-refinement), or has its degree raised by a fixed increment (p-refinement), or both
  (hp), by a global policy, and numbers its degrees of freedom. The spec does not say
  what coefficients the new Elements start with; they keep those of the coarse Element.
\<close>

datatype ref_policy = Ref_h | Ref_p | Ref_hp

definition refine_element :: "ref_policy \<Rightarrow> nat \<Rightarrow> Element_data \<Rightarrow> Element" where
  "refine_element pol inc d =
     (let mid = (x_left d + x_right d) / 2 in
      case pol of
        Ref_p \<Rightarrow> Active (d\<lparr>p := p d + inc\<rparr>)
      | Ref_h \<Rightarrow> Inactive d (Active (d\<lparr>x_right := mid\<rparr>)) (Active (d\<lparr>x_left := mid\<rparr>))
      | Ref_hp \<Rightarrow> Inactive d (Active (d\<lparr>x_right := mid, p := p d + inc\<rparr>))
                             (Active (d\<lparr>x_left := mid, p := p d + inc\<rparr>)))"

fun refine_active :: "ref_policy \<Rightarrow> nat \<Rightarrow> Element \<Rightarrow> Element" where
  "refine_active pol inc (Active d) = refine_element pol inc d"
| "refine_active pol inc (Inactive d l r) =
     Inactive d (refine_active pol inc l) (refine_active pol inc r)"

definition refine_space :: "ref_policy \<Rightarrow> nat \<Rightarrow> Space \<Rightarrow> Space" where
  "refine_space pol inc R = R\<lparr>elements := map (refine_active pol inc) (elements R)\<rparr>"

text \<open>
  \<open>main.cpp\<close> holds Spaces by pointer: \<open>Space* ref_space = construct_refined_space(space)\<close>
  gets the pointer to the coarse Space and returns the pointer to a new Space, which
  \<open>main\<close> deletes at the end of the adaptivity step. The model keeps the Space objects in
  a store, from addresses to Spaces, with the next address that \<open>new\<close> hands out.
  \<open>construct_refined_space\<close> makes the new Space as a copy of the coarse one, refines
  the copy in place and numbers its degrees of freedom in place; it returns the new
  address and the store, and \<open>None\<close> when the pointer it gets holds no Space.
\<close>

record heap =
  spaces :: "nat \<Rightarrow> Space option"
  next_free :: nat

definition heap_new :: "Space \<Rightarrow> heap \<Rightarrow> nat \<times> heap" where
  "heap_new S h =
     (next_free h, h\<lparr>spaces := (spaces h)(next_free h \<mapsto> S), next_free := Suc (next_free h)\<rparr>)"

definition heap_update :: "nat \<Rightarrow> (Space \<Rightarrow> Space) \<Rightarrow> heap \<Rightarrow> heap" where
  "heap_update r f h = h\<lparr>spaces := (spaces h)(r := map_option f (spaces h r))\<rparr>"

definition construct_refined_space :: "ref_policy \<Rightarrow> nat \<Rightarrow> nat \<Rightarrow> heap \<Rightarrow> (nat \<times> heap) option" where
  "construct_refined_space pol inc a h =
     (case spaces h a of
        None \<Rightarrow> None
      | Some coarse \<Rightarrow>
          (case heap_new coarse h of
             (r, h1) \<Rightarrow>
               Some (r, heap_update r (\<lambda>R. snd (assign_dofs R))
                          (heap_update r (refine_space pol inc) h1))))"

text \<open>The interval and the degree of an Element.\<close>

definition shape :: "Element_data \<Rightarrow> real \<times> real \<times> nat" where
  "shape d = (x_left d, x_right d, p d)"

text \<open>
  The invariants of the data model that the properties of the reference Space need: at
  least one equation, at least one active Element, every degree at least 1.
\<close>

definition space_wf :: "Space \<Rightarrow> bool" where
  "space_wf S = (0 < n_eq S \<and> space_active S \<noteq> [] \<and> list_all (\<lambda>d. 1 \<le> p d) (space_active S))"

text \<open>
  The Space of the test: \<open>[-1, 1]\<close>, two Elements of degree 1, one equation, Dirichlet
  value 0 at both ends.
\<close>

definition test_space :: Space where
  "test_space =
     set_bc_right_dirichlet 0 0 (set_bc_left_dirichlet 0 0
       \<lparr>left_endpoint = - 1, right_endpoint = 1, n_eq = 1,
        bc_left = (\<lambda>c. Neumann), bc_right = (\<lambda>c. Neumann),
        elements = [Active \<lparr>x_left = - 1, x_right = 0, p = 1, coeffs = (\<lambda>x. 0), dofs = (\<lambda>x. - 1)\<rparr>,
                    Active \<lparr>x_left = 0, x_right = 1, p = 1, coeffs = (\<lambda>x. 0), dofs = (\<lambda>x. - 1)\<rparr>],
        n_dof = 0\<rparr>)"

text \<open>A store that holds the numbered Space of the test at address 0.\<close>

definition test_heap :: heap where
  "test_heap = \<lparr>spaces = (\<lambda>a. None)(0 := Some (snd (assign_dofs test_space))), next_free = 1\<rparr>"

subsection \<open>Auxiliary notions for the proofs\<close>

text \<open>The same walk on the list of the active Elements.\<close>

fun walk_data ::
  "('s \<Rightarrow> Element_data \<Rightarrow> 's \<times> Element_data) \<Rightarrow> 's \<Rightarrow> Element_data list \<Rightarrow> 's \<times> Element_data list" where
  "walk_data f s [] = (s, [])"
| "walk_data f s (d # ds) =
     (case f s d of (s1, d') \<Rightarrow>
        (case walk_data f s1 ds of (s2, ds') \<Rightarrow> (s2, d' # ds')))"

text \<open>
  The free and the constrained local coefficients of the \<open>k\<close>-th of \<open>n_act\<close> active
  Elements.
\<close>

definition free_count :: "Space \<Rightarrow> nat \<Rightarrow> nat \<Rightarrow> Element_data \<Rightarrow> nat" where
  "free_count S n_act k d =
     length (filter (\<lambda>x. dirichlet_value S (k = 0) (Suc k = n_act) x = None) (slots (n_eq S) d))"

definition constrained_count :: "Space \<Rightarrow> nat \<Rightarrow> nat \<Rightarrow> Element_data \<Rightarrow> nat" where
  "constrained_count S n_act k d =
     length (filter (\<lambda>x. dirichlet_value S (k = 0) (Suc k = n_act) x \<noteq> None) (slots (n_eq S) d))"

text \<open>
  Two Elements that differ at most in what \<open>assign_dofs\<close> overwrites on the slots
  \<open>xs\<close>: the indices there, and the coefficients at the constrained ones.
\<close>

definition same_outside :: "Space \<Rightarrow> bool \<Rightarrow> bool \<Rightarrow> (nat \<times> nat) list \<Rightarrow> Element_data \<Rightarrow> Element_data \<Rightarrow> bool" where
  "same_outside S a b xs d e =
     (x_left d = x_left e \<and> x_right d = x_right e \<and> p d = p e \<and>
      (\<forall>x. x \<notin> set xs \<longrightarrow> dofs d x = dofs e x) \<and>
      (\<forall>x. x \<notin> set xs \<or> dirichlet_value S a b x = None \<longrightarrow> coeffs d x = coeffs e x))"

text \<open>The global indices that an Element holds on the slots \<open>xs\<close>.\<close>

definition written :: "Element_data \<Rightarrow> (nat \<times> nat) list \<Rightarrow> nat set" where
  "written d xs = (\<lambda>x. nat (dofs d x)) ` {x \<in> set xs. 0 \<le> dofs d x}"

text \<open>The number of equations with a Dirichlet condition at the left and at the right end.\<close>

definition n_dirichlet_left :: "Space \<Rightarrow> nat" where
  "n_dirichlet_left S = length (filter (\<lambda>c. bc_left S c \<noteq> Neumann) [0..<n_eq S])"

definition n_dirichlet_right :: "Space \<Rightarrow> nat" where
  "n_dirichlet_right S = length (filter (\<lambda>c. bc_right S c \<noteq> Neumann) [0..<n_eq S])"

section \<open>Properties\<close>

lemma value_partial_x:
  "((\<lambda>x. InitialSolutionHeatTransfer_value x y) has_real_derivative (y + 10) / 100) (at x)"
  unfolding InitialSolutionHeatTransfer_value_def
  by (auto intro!: derivative_eq_intros)

lemma value_partial_y:
  "((\<lambda>y. InitialSolutionHeatTransfer_value x y) has_real_derivative (x + 10) / 100) (at y)"
  unfolding InitialSolutionHeatTransfer_value_def
  by (auto intro!: derivative_eq_intros)

subsection \<open>InitialSolutionHeatTransfer\<close>

text \<open>
  Claim C10: for every point \<open>(x, y)\<close> the components \<open>dx\<close> and \<open>dy\<close> of
  \<open>derivatives\<close> are the partial derivatives of \<open>value\<close>, which is
  \<open>(x+10)*(y+10)/100\<close>. The code does not do this: the partial derivatives of
  \<open>value\<close> are \<open>(y+10)/100\<close> and \<open>(x+10)/100\<close> (lemmas \<open>value_partial_x\<close> and
  \<open>value_partial_y\<close>), and \<open>derivatives\<close> divides by 10 instead of 100. At the point
  \<open>(0, 0)\<close> it returns \<open>(1, 1)\<close> where both partial derivatives are \<open>1/10\<close>.
\<close>

theorem derivatives_are_not_the_partial_derivatives_of_value:
  "InitialSolutionHeatTransfer_derivatives 0 0 = (1, 1) \<and>
   ((\<lambda>x. InitialSolutionHeatTransfer_value x 0) has_real_derivative 1 / 10) (at 0) \<and>
   ((\<lambda>y. InitialSolutionHeatTransfer_value 0 y) has_real_derivative 1 / 10) (at 0) \<and>
   \<not> ((\<lambda>x. InitialSolutionHeatTransfer_value x 0) has_real_derivative
        fst (InitialSolutionHeatTransfer_derivatives 0 0)) (at 0) \<and>
   \<not> ((\<lambda>y. InitialSolutionHeatTransfer_value 0 y) has_real_derivative
        snd (InitialSolutionHeatTransfer_derivatives 0 0)) (at 0)"
proof -
  have dx: "((\<lambda>x. InitialSolutionHeatTransfer_value x 0) has_real_derivative 1 / 10) (at 0)"
    using value_partial_x [of 0 0] by simp
  have dy: "((\<lambda>y. InitialSolutionHeatTransfer_value 0 y) has_real_derivative 1 / 10) (at 0)"
    using value_partial_y [of 0 0] by simp
  have v: "InitialSolutionHeatTransfer_derivatives 0 0 = (1, 1)"
    by (simp add: InitialSolutionHeatTransfer_derivatives_def)
  have nx: "\<not> ((\<lambda>x. InitialSolutionHeatTransfer_value x 0) has_real_derivative 1) (at 0)"
    using DERIV_unique [OF dx] by fastforce
  have ny: "\<not> ((\<lambda>y. InitialSolutionHeatTransfer_value 0 y) has_real_derivative 1) (at 0)"
    using DERIV_unique [OF dy] by fastforce
  show ?thesis using dx dy nx ny by (simp add: v)
qed

subsection \<open>PetscMatrix::add and PetscLinearMatrixSolver::solve\<close>

lemma to_petsc_supported: "supported cfg v \<Longrightarrow> to_petsc cfg v = Inr (scalar_value v)"
  by (cases cfg; cases v) (auto simp: scalar_value_def supported_def complex_of_real_def)

lemma to_petsc_unsupported:
  "\<not> supported cfg v \<Longrightarrow>
     to_petsc cfg v = Inl (Exception ''PETSc with complex numbers support required.'')"
  by (cases cfg; cases v) (auto simp: supported_def)

lemma sint_nonneg_uint:
  fixes m :: "32 word"
  assumes "0 \<le> sint m"
  shows "sint m = uint m"
proof -
  have s: "sint m = take_bit 32 (uint m) - 2 ^ 32 * of_bool (bit (uint m) 31)"
    by (simp add: sint_uint signed_take_bit_eq_take_bit_minus)
  have t: "take_bit 32 (uint m) = uint m"
    using uint_lt2p [of m] uint_nonnegative [of m] by (simp add: take_bit_int_eq_self)
  have b: "uint m < 4294967296"
    using uint_lt2p [of m] by simp
  show ?thesis
  proof (cases "bit (uint m) 31")
    case True
    with s t b assms show ?thesis by simp
  next
    case False
    with s t show ?thesis by simp
  qed
qed

lemma to_PetscInt_nonneg: "0 \<le> to_PetscInt w m \<Longrightarrow> to_PetscInt w m = uint m"
  by (cases w) (simp_all add: to_PetscInt_def sint_nonneg_uint)

text \<open>
  Claim C9: for every index pair \<open>(m, n)\<close>, \<open>PetscMatrix::add(m, n, v)\<close> with
  \<open>v == 0.0\<close> leaves the matrix unchanged, and for \<open>v != 0.0\<close> the value is
  accumulated into entry \<open>(m, n)\<close>. The first half holds as stated. The second half
  holds when \<open>to_petsc\<close> can convert the value (\<open>Scalar = double\<close> in both builds,
  \<open>Scalar = std::complex<double>\<close> in a build with \<open>PETSC_USE_COMPLEX\<close>) and the cast
  \<open>(PetscInt)\<close> leaves both indices inside the matrix: then entry \<open>(m, n)\<close> grows by
  \<open>v\<close> and nothing else changes. An index that the cast makes negative is ignored by
  \<open>MatSetValue\<close>, so that nothing is accumulated. In a build without
  \<open>PETSC_USE_COMPLEX\<close> a non-zero complex value makes \<open>to_petsc\<close> throw, and nothing
  is accumulated.
\<close>

theorem PetscMatrix_add_accumulates:
  "(\<not> nonzero v \<longrightarrow> PetscMatrix_add cfg w m n v A = Inr A) \<and>
   (nonzero v \<and> supported cfg v \<and> inside w (matrix A) m n \<longrightarrow>
      (\<exists>A'. PetscMatrix_add cfg w m n v A = Inr A' \<and>
            entry (matrix A') (uint m) (uint n) =
              entry (matrix A) (uint m) (uint n) + scalar_value v \<and>
            (\<forall>i j. (i, j) \<noteq> (uint m, uint n) \<longrightarrow>
               mat_entries (matrix A') (i, j) = mat_entries (matrix A) (i, j)) \<and>
            mat_rows (matrix A') = mat_rows (matrix A) \<and>
            mat_cols (matrix A') = mat_cols (matrix A) \<and>
            msize A' = msize A \<and> nnz A' = nnz A \<and> inited A' = inited A)) \<and>
   (nonzero v \<and> supported cfg v \<and> (to_PetscInt w m < 0 \<or> to_PetscInt w n < 0) \<longrightarrow>
      PetscMatrix_add cfg w m n v A = Inr A) \<and>
   (nonzero v \<and> \<not> supported cfg v \<longrightarrow>
      PetscMatrix_add cfg w m n v A =
        Inl (Exception ''PETSc with complex numbers support required.''))"
proof (intro conjI impI)
  assume "\<not> nonzero v"
  then show "PetscMatrix_add cfg w m n v A = Inr A"
    by (simp add: PetscMatrix_add_def)
next
  assume a: "nonzero v \<and> supported cfg v \<and> inside w (matrix A) m n"
  then have tp: "to_petsc cfg v = Inr (scalar_value v)"
    by (simp add: to_petsc_supported)
  from a have im: "to_PetscInt w m = uint m" and jn: "to_PetscInt w n = uint n"
    by (simp_all add: inside_def to_PetscInt_nonneg)
  from a have rng: "0 \<le> uint m" "uint m < mat_rows (matrix A)" "0 \<le> uint n"
    "uint n < mat_cols (matrix A)"
    using im jn by (simp_all add: inside_def)
  define M where "M = snd (MatSetValue (matrix A) (uint m) (uint n) (scalar_value v) ADD_VALUES)"
  have M: "M = (matrix A)\<lparr>mat_entries := (mat_entries (matrix A))((uint m, uint n) \<mapsto>
      (case mat_entries (matrix A) (uint m, uint n) of None \<Rightarrow> scalar_value v
       | Some a \<Rightarrow> a + scalar_value v))\<rparr>"
    using rng by (simp add: M_def MatSetValue_def)
  have "PetscMatrix_add cfg w m n v A = Inr (A\<lparr>matrix := M\<rparr>)"
    using a tp by (simp add: PetscMatrix_add_def im jn M_def)
  moreover have "entry (matrix (A\<lparr>matrix := M\<rparr>)) (uint m) (uint n) =
      entry (matrix A) (uint m) (uint n) + scalar_value v"
    by (simp add: entry_def M split: option.splits)
  moreover have "\<forall>i j. (i, j) \<noteq> (uint m, uint n) \<longrightarrow>
      mat_entries (matrix (A\<lparr>matrix := M\<rparr>)) (i, j) = mat_entries (matrix A) (i, j)"
    by (simp add: M)
  moreover have "mat_rows (matrix (A\<lparr>matrix := M\<rparr>)) = mat_rows (matrix A)"
    "mat_cols (matrix (A\<lparr>matrix := M\<rparr>)) = mat_cols (matrix A)"
    by (simp_all add: M)
  ultimately show "\<exists>A'. PetscMatrix_add cfg w m n v A = Inr A' \<and>
            entry (matrix A') (uint m) (uint n) =
              entry (matrix A) (uint m) (uint n) + scalar_value v \<and>
            (\<forall>i j. (i, j) \<noteq> (uint m, uint n) \<longrightarrow>
               mat_entries (matrix A') (i, j) = mat_entries (matrix A) (i, j)) \<and>
            mat_rows (matrix A') = mat_rows (matrix A) \<and>
            mat_cols (matrix A') = mat_cols (matrix A) \<and>
            msize A' = msize A \<and> nnz A' = nnz A \<and> inited A' = inited A"
    by (intro exI [of _ "A\<lparr>matrix := M\<rparr>"]) simp
next
  assume a: "nonzero v \<and> supported cfg v \<and> (to_PetscInt w m < 0 \<or> to_PetscInt w n < 0)"
  then have tp: "to_petsc cfg v = Inr (scalar_value v)"
    by (simp add: to_petsc_supported)
  from a have "MatSetValue (matrix A) (to_PetscInt w m) (to_PetscInt w n) (scalar_value v) ADD_VALUES
      = (0, matrix A)"
    by (simp add: MatSetValue_def)
  with a tp show "PetscMatrix_add cfg w m n v A = Inr A"
    by (simp add: PetscMatrix_add_def)
next
  assume "nonzero v \<and> \<not> supported cfg v"
  then show "PetscMatrix_add cfg w m n v A =
        Inl (Exception ''PETSc with complex numbers support required.'')"
    by (simp add: PetscMatrix_add_def to_petsc_unsupported)
qed

lemma inside_empty_matrix: "inside PetscInt_32 (matrix empty_matrix) 0 1"
  by (simp add: inside_def to_PetscInt_def empty_matrix_def)

theorem PetscMatrix_add_accumulates_witness:
  "nonzero (Dbl 3) \<and> supported Real_Scalars (Dbl 3) \<and>
   inside PetscInt_32 (matrix empty_matrix) 0 1 \<and>
   (\<exists>A'. PetscMatrix_add Real_Scalars PetscInt_32 0 1 (Dbl 3) empty_matrix = Inr A' \<and>
         entry (matrix A') 0 1 = 3 \<and> entry (matrix A') 0 0 = 0) \<and>
   \<not> nonzero (Dbl 0) \<and>
   PetscMatrix_add Real_Scalars PetscInt_32 0 1 (Dbl 0) empty_matrix = Inr empty_matrix"
proof -
  have s: "nonzero (Dbl 3) \<and> supported Real_Scalars (Dbl 3) \<and>
      inside PetscInt_32 (matrix empty_matrix) 0 1"
    by (simp add: supported_def inside_empty_matrix)
  from PetscMatrix_add_accumulates [of "Dbl 3" Real_Scalars PetscInt_32 0 1 empty_matrix] s
  obtain A' where A': "PetscMatrix_add Real_Scalars PetscInt_32 0 1 (Dbl 3) empty_matrix = Inr A'"
    "entry (matrix A') (uint (0::32 word)) (uint (1::32 word)) =
       entry (matrix empty_matrix) (uint (0::32 word)) (uint (1::32 word)) + scalar_value (Dbl 3)"
    "\<forall>i j. (i, j) \<noteq> (uint (0::32 word), uint (1::32 word)) \<longrightarrow>
       mat_entries (matrix A') (i, j) = mat_entries (matrix empty_matrix) (i, j)"
    by blast
  from A'(2) have e1: "entry (matrix A') 0 1 = 3"
    by (simp add: entry_def empty_matrix_def scalar_value_def)
  from A'(3) have "mat_entries (matrix A') (0, 0) = mat_entries (matrix empty_matrix) (0, 0)"
    by simp
  then have e0: "entry (matrix A') 0 0 = 0"
    by (simp add: entry_def empty_matrix_def)
  have z: "PetscMatrix_add Real_Scalars PetscInt_32 0 1 (Dbl 0) empty_matrix = Inr empty_matrix"
    using PetscMatrix_add_accumulates [of "Dbl 0" Real_Scalars PetscInt_32 0 1 empty_matrix]
    by simp
  from s A'(1) e1 e0 z show ?thesis by auto
qed

text \<open>
  The claim as stated fails at two inputs. In the build without \<open>PETSC_USE_COMPLEX\<close>,
  for the instantiation at \<open>std::complex<double>\<close>, adding the non-zero value 1 raises the
  exception. With a 32-bit \<open>PetscInt\<close>, adding the non-zero value 3 at row
  \<open>m = 4294967295\<close> hands row \<open>-1\<close> to \<open>MatSetValue\<close>, and the matrix is as before.
\<close>

theorem PetscMatrix_add_counterexample:
  "nonzero (Cpx 1) \<and>
   PetscMatrix_add Real_Scalars PetscInt_32 0 0 (Cpx 1) empty_matrix =
     Inl (Exception ''PETSc with complex numbers support required.'') \<and>
   nonzero (Dbl 3) \<and>
   to_PetscInt PetscInt_32 4294967295 = - 1 \<and>
   PetscMatrix_add Real_Scalars PetscInt_32 4294967295 0 (Dbl 3) empty_matrix = Inr empty_matrix"
  by (simp add: PetscMatrix_add_def to_PetscInt_def MatSetValue_def)

text \<open>
  Claim C4: when the linear-solve service reports failure the Newton run fails with
  SolverFailure, with no retry, and whenever the linear system cannot be solved the solve
  step signals the failure to its caller. The Newton loop does the first (lemma
  \<open>newton_iteration_SolverFailure\<close> below). \<open>PetscLinearMatrixSolver::solve\<close> does
  not do the second: whatever error code \<open>KSPSolve\<close> returns, also a non-zero one, the
  function returns normally with the contents of \<open>x\<close> as the solution.
\<close>

theorem PetscLinearMatrixSolver_solve_discards_error_code:
  "PetscLinearMatrixSolver_solve Real_Scalars T_double (\<lambda>A b. (ec, x)) m rhs s =
     Inr (s\<lparr>sln := map (\<lambda>i. Dbl (Re (x i))) [0..<msize m]\<rparr>)"
  by (simp add: PetscLinearMatrixSolver_solve_def)

subsection \<open>The Newton loop\<close>

declare newton_loop.simps [simp del]

lemma newton_iteration_cases:
  "newton_iteration E tol max_iter st =
     (if residual_small E tol (space st) \<and> it st > 1 then Exit Converged st
      else case linear_solve E (space st) of
        None \<Rightarrow> Exit SolverFailure st
      | Some sol \<Rightarrow>
         if it st \<ge> max_iter
         then Exit DivergenceError
           (st\<lparr>coeff_vec := add_correction (env_get_num_dofs E (space st)) (coeff_vec st) sol\<rparr>)
         else Continue
           \<lparr>space = env_vector_to_solution E
               (add_correction (env_get_num_dofs E (space st)) (coeff_vec st) sol) (space st),
            coeff_vec = add_correction (env_get_num_dofs E (space st)) (coeff_vec st) sol,
            it = it st + 1\<rparr>)"
  by (simp add: newton_iteration_def residual_small_def linear_solve_def Let_def
      split: prod.splits option.splits)

lemma newton_loop_Exit:
  "newton_iteration E tol max_iter st = Exit out s \<Longrightarrow> newton_loop E tol max_iter st = (out, s)"
  by (simp add: newton_loop.simps [of E tol max_iter st])

lemma newton_loop_Continue:
  "newton_iteration E tol max_iter st = Continue s \<Longrightarrow>
     newton_loop E tol max_iter st = newton_loop E tol max_iter s"
  by (simp add: newton_loop.simps [of E tol max_iter st])

lemma newton_iteration_Continue_written_back:
  "newton_iteration E tol max_iter st = Continue s \<Longrightarrow>
     written_back E s \<and> it s = it st + 1 \<and> (\<exists>sol. linear_solve E (space st) = Some sol)"
  by (auto simp: newton_iteration_cases written_back_def split: if_splits option.splits)

lemma newton_loop_Converged:
  "newton_loop E tol max_iter st = (Converged, st') \<Longrightarrow>
     residual_small E tol (space st') \<and> 1 < it st' \<and> it st \<le> it st' \<and>
     (st' = st \<or> (written_back E st' \<and> (\<exists>sol. linear_solve E (space st) = Some sol)))"
proof (induction E tol max_iter st rule: newton_loop.induct)
  case (1 E tol max_iter st)
  show ?case
  proof (cases "newton_iteration E tol max_iter st")
    case (Exit out s)
    with "1.prems" have "out = Converged" "s = st'"
      by (simp_all add: newton_loop_Exit)
    with Exit show ?thesis
      by (auto simp: newton_iteration_cases split: if_splits option.splits)
  next
    case (Continue s)
    with "1.prems" have run: "newton_loop E tol max_iter s = (Converged, st')"
      by (simp add: newton_loop_Continue)
    note ih = "1.IH" [OF Continue run]
    note step = newton_iteration_Continue_written_back [OF Continue]
    from ih step show ?thesis by auto
  qed
qed

lemma newton_loop_DivergenceError:
  "newton_loop E tol max_iter st = (DivergenceError, st') \<Longrightarrow>
     (\<exists>s sol. linear_solve E (space s) = Some sol \<and>
        st' = s\<lparr>coeff_vec := add_correction (env_get_num_dofs E (space s)) (coeff_vec s) sol\<rparr> \<and>
        max_iter \<le> it s \<and> (s = st \<or> (written_back E s \<and> it st < it s)))"
proof (induction E tol max_iter st rule: newton_loop.induct)
  case (1 E tol max_iter st)
  show ?case
  proof (cases "newton_iteration E tol max_iter st")
    case (Exit out s)
    with "1.prems" have "out = DivergenceError" "s = st'"
      by (simp_all add: newton_loop_Exit)
    with Exit show ?thesis
      by (auto simp: newton_iteration_cases split: if_splits option.splits)
  next
    case (Continue s)
    with "1.prems" have run: "newton_loop E tol max_iter s = (DivergenceError, st')"
      by (simp add: newton_loop_Continue)
    note step = newton_iteration_Continue_written_back [OF Continue]
    from "1.IH" [OF Continue run] obtain s' sol where
      s': "linear_solve E (space s') = Some sol"
        "st' = s'\<lparr>coeff_vec := add_correction (env_get_num_dofs E (space s')) (coeff_vec s') sol\<rparr>"
        "max_iter \<le> it s'" "s' = s \<or> (written_back E s' \<and> it s < it s')"
      by blast
    from s'(4) step have "written_back E s' \<and> it st < it s'" by auto
    with s'(1,2,3) show ?thesis by blast
  qed
qed

lemma one_dof_step1:
  "newton_iteration one_dof_env tol max_iter \<lparr>space = 0, coeff_vec = (\<lambda>_. 0)(0 := 0), it = 1\<rparr> =
     (if 1 \<ge> max_iter then Exit DivergenceError \<lparr>space = 0, coeff_vec = (\<lambda>_. 0)(0 := 1), it = 1\<rparr>
      else Continue \<lparr>space = 1, coeff_vec = (\<lambda>_. 0)(0 := 1), it = 2\<rparr>)"
  by (simp add: newton_iteration_def one_dof_env_def res_norm_squared_def negate_rhs_def
      add_correction_def)

lemma one_dof_step2:
  "0 < tol \<Longrightarrow>
   newton_iteration one_dof_env tol max_iter \<lparr>space = 1, coeff_vec = (\<lambda>_. 0)(0 := 1), it = 2\<rparr> =
     Exit Converged \<lparr>space = 1, coeff_vec = (\<lambda>_. 0)(0 := 1), it = 2\<rparr>"
  by (simp add: newton_iteration_def one_dof_env_def res_norm_squared_def negate_rhs_def
      add_correction_def)

lemma one_dof_converges:
  "newton one_dof_env NEWTON_TOL_COARSE NEWTON_MAX_ITER 0 (\<lambda>_. 0) =
     (Converged, \<lparr>space = 1, coeff_vec = (\<lambda>_. 0)(0 := 1), it = 2\<rparr>)"
proof -
  have "newton one_dof_env NEWTON_TOL_COARSE NEWTON_MAX_ITER 0 (\<lambda>_. 0) =
      newton_loop one_dof_env NEWTON_TOL_COARSE NEWTON_MAX_ITER
        \<lparr>space = 0, coeff_vec = (\<lambda>_. 0)(0 := 0), it = 1\<rparr>"
    by (simp add: newton_def one_dof_env_def)
  also have "\<dots> = newton_loop one_dof_env NEWTON_TOL_COARSE NEWTON_MAX_ITER
      \<lparr>space = 1, coeff_vec = (\<lambda>_. 0)(0 := 1), it = 2\<rparr>"
    by (rule newton_loop_Continue) (simp add: one_dof_step1 NEWTON_MAX_ITER_def)
  also have "\<dots> = (Converged, \<lparr>space = 1, coeff_vec = (\<lambda>_. 0)(0 := 1), it = 2\<rparr>)"
    by (rule newton_loop_Exit) (simp add: one_dof_step2 NEWTON_TOL_COARSE_def)
  finally show ?thesis .
qed

lemma one_dof_diverges:
  "newton one_dof_env NEWTON_TOL_COARSE 1 0 (\<lambda>_. 0) =
     (DivergenceError, \<lparr>space = 0, coeff_vec = (\<lambda>_. 0)(0 := 1), it = 1\<rparr>)"
proof -
  have "newton one_dof_env NEWTON_TOL_COARSE 1 0 (\<lambda>_. 0) =
      newton_loop one_dof_env NEWTON_TOL_COARSE 1
        \<lparr>space = 0, coeff_vec = (\<lambda>_. 0)(0 := 0), it = 1\<rparr>"
    by (simp add: newton_def one_dof_env_def)
  also have "\<dots> = (DivergenceError, \<lparr>space = 0, coeff_vec = (\<lambda>_. 0)(0 := 1), it = 1\<rparr>)"
    by (rule newton_loop_Exit) (simp add: one_dof_step1)
  finally show ?thesis .
qed

lemma newton_iteration_SolverFailure:
  "\<not> (residual_small E tol (space st) \<and> 1 < it st) \<Longrightarrow> linear_solve E (space st) = None \<Longrightarrow>
     newton_loop E tol max_iter st = (SolverFailure, st)"
  by (rule newton_loop_Exit) (simp add: newton_iteration_cases)

text \<open>
  Claim C2: a Newton run exits as Converged only when the squared norm of the residual is
  strictly below the tolerance squared and at least one full iteration (assemble, linear
  solve, update) has completed; the first residual evaluation never triggers convergence.
  For a run as \<open>main\<close> starts it (counter 1): if it ends Converged, the residual of the
  final Space is below the tolerance squared, the counter is above 1, the final Space is
  a write-back of the final coefficient vector, and the linear solve of the first pass
  returned a solution. A pass with counter 1 never exits as Converged.
\<close>

theorem newton_converged_only_after_full_iteration:
  "(newton E tol max_iter sp cv0 = (Converged, st') \<longrightarrow>
      residual_small E tol (space st') \<and> 1 < it st' \<and> written_back E st' \<and>
      (\<exists>sol. linear_solve E sp = Some sol)) \<and>
   (\<forall>st s. it st = 1 \<longrightarrow> newton_iteration E tol max_iter st \<noteq> Exit Converged s)"
proof (rule conjI)
  show "newton E tol max_iter sp cv0 = (Converged, st') \<longrightarrow>
      residual_small E tol (space st') \<and> 1 < it st' \<and> written_back E st' \<and>
      (\<exists>sol. linear_solve E sp = Some sol)"
  proof (rule impI)
    assume run: "newton E tol max_iter sp cv0 = (Converged, st')"
    let ?st = "\<lparr>space = sp, coeff_vec = env_solution_to_vector E sp cv0, it = 1\<rparr>"
    from run have "newton_loop E tol max_iter ?st = (Converged, st')"
      by (simp add: newton_def)
    from newton_loop_Converged [OF this]
    have c: "residual_small E tol (space st')" "1 < it st'"
      "st' = ?st \<or> (written_back E st' \<and> (\<exists>sol. linear_solve E (space ?st) = Some sol))"
      by simp_all
    from c(2) have "st' \<noteq> ?st" by auto
    with c show "residual_small E tol (space st') \<and> 1 < it st' \<and> written_back E st' \<and>
        (\<exists>sol. linear_solve E sp = Some sol)"
      by simp
  qed
next
  show "\<forall>st s. it st = 1 \<longrightarrow> newton_iteration E tol max_iter st \<noteq> Exit Converged s"
    by (simp add: newton_iteration_cases split: option.splits)
qed

theorem newton_converged_only_after_full_iteration_witness:
  "newton one_dof_env NEWTON_TOL_COARSE NEWTON_MAX_ITER 0 (\<lambda>_. 0) =
     (Converged, \<lparr>space = 1, coeff_vec = (\<lambda>_. 0)(0 := 1), it = 2\<rparr>) \<and>
   residual_small one_dof_env NEWTON_TOL_COARSE 1 \<and>
   written_back one_dof_env \<lparr>space = 1, coeff_vec = (\<lambda>_. 0)(0 := 1), it = 2\<rparr> \<and>
   (\<exists>sol. linear_solve one_dof_env 0 = Some sol)"
  using newton_converged_only_after_full_iteration
    [of one_dof_env NEWTON_TOL_COARSE NEWTON_MAX_ITER 0 "\<lambda>_. 0"
      "\<lparr>space = 1, coeff_vec = (\<lambda>_. 0)(0 := 1), it = 2\<rparr>"]
    one_dof_converges
  by simp

text \<open>
  Claim C3: in the Update step the correction is added to the coefficient vector, the
  coefficients are written back into the Space, the counter is incremented, and only then
  the run fails with DivergenceError if the counter exceeds the maximum, so that on
  divergence failure the Space holds the last updated coefficients. The source tests
  \<open>it >= NEWTON_MAX_ITER\<close> right after the correction is added, before
  \<open>vector_to_solution\<close> and before \<open>it++\<close>. With \<open>NEWTON_MAX_ITER = 1\<close> the run on
  the one-unknown problem fails in its first pass: the coefficient vector holds the
  update 1, the Space still holds 0, and the counter is still 1.
\<close>

theorem newton_divergence_counterexample:
  "fst (newton one_dof_env NEWTON_TOL_COARSE 1 0 (\<lambda>_. 0)) = DivergenceError \<and>
   coeff_vec (snd (newton one_dof_env NEWTON_TOL_COARSE 1 0 (\<lambda>_. 0))) 0 = 1 \<and>
   space (snd (newton one_dof_env NEWTON_TOL_COARSE 1 0 (\<lambda>_. 0))) = 0 \<and>
   it (snd (newton one_dof_env NEWTON_TOL_COARSE 1 0 (\<lambda>_. 0))) = 1 \<and>
   space (snd (newton one_dof_env NEWTON_TOL_COARSE 1 0 (\<lambda>_. 0))) \<noteq>
     env_vector_to_solution one_dof_env
       (coeff_vec (snd (newton one_dof_env NEWTON_TOL_COARSE 1 0 (\<lambda>_. 0))))
       (space (snd (newton one_dof_env NEWTON_TOL_COARSE 1 0 (\<lambda>_. 0))))"
  by (simp add: one_dof_diverges) (simp add: one_dof_env_def)

text \<open>
  Claim C3 as amended: a run that ends with DivergenceError ends in a pass that starts
  from a state \<open>s\<close> with counter at least the maximum, whose linear solve returned a
  correction; the final coefficient vector is that of \<open>s\<close> plus the correction, and the
  final Space and counter are those of \<open>s\<close>, neither written back nor incremented.
  The state \<open>s\<close> is the one the run started from, or a state written back by the pass
  before.
\<close>

theorem newton_divergence_before_write_back:
  "newton_loop E tol max_iter st = (DivergenceError, st') \<Longrightarrow>
     \<exists>s sol. linear_solve E (space s) = Some sol \<and>
       coeff_vec st' = add_correction (env_get_num_dofs E (space s)) (coeff_vec s) sol \<and>
       space st' = space s \<and> it st' = it s \<and> max_iter \<le> it s \<and>
       (s = st \<or> (written_back E s \<and> it st < it s))"
proof -
  assume "newton_loop E tol max_iter st = (DivergenceError, st')"
  from newton_loop_DivergenceError [OF this] obtain s sol where
    s: "linear_solve E (space s) = Some sol"
      "st' = s\<lparr>coeff_vec := add_correction (env_get_num_dofs E (space s)) (coeff_vec s) sol\<rparr>"
      "max_iter \<le> it s" "s = st \<or> (written_back E s \<and> it st < it s)"
    by blast
  from s(2) have "coeff_vec st' = add_correction (env_get_num_dofs E (space s)) (coeff_vec s) sol"
    "space st' = space s" "it st' = it s"
    by simp_all
  with s(1,3,4) show ?thesis by blast
qed

theorem newton_divergence_before_write_back_witness:
  "newton_loop one_dof_env NEWTON_TOL_COARSE 1 \<lparr>space = 0, coeff_vec = (\<lambda>_. 0)(0 := 0), it = 1\<rparr> =
     (DivergenceError, \<lparr>space = 0, coeff_vec = (\<lambda>_. 0)(0 := 1), it = 1\<rparr>) \<and>
   (\<exists>s sol. linear_solve one_dof_env (space s) = Some sol \<and>
       (\<lambda>_. 0)(0 := 1) = add_correction (env_get_num_dofs one_dof_env (space s)) (coeff_vec s) sol \<and>
       0 = space s \<and> 1 = it s \<and>
       (s = \<lparr>space = 0, coeff_vec = (\<lambda>_. 0)(0 := 0), it = 1\<rparr> \<or>
        (written_back one_dof_env s \<and> 1 < it s)))"
proof -
  have run: "newton_loop one_dof_env NEWTON_TOL_COARSE 1
      \<lparr>space = 0, coeff_vec = (\<lambda>_. 0)(0 := 0), it = 1\<rparr> =
     (DivergenceError, \<lparr>space = 0, coeff_vec = (\<lambda>_. 0)(0 := 1), it = 1\<rparr>)"
    by (rule newton_loop_Exit) (simp add: one_dof_step1)
  from newton_divergence_before_write_back [OF run] obtain s sol where
    "linear_solve one_dof_env (space s) = Some sol"
    "(\<lambda>_. 0)(0 := 1) = add_correction (env_get_num_dofs one_dof_env (space s)) (coeff_vec s) sol"
    "0 = space s" "1 = it s"
    "s = \<lparr>space = 0, coeff_vec = (\<lambda>_. 0)(0 := 0), it = 1\<rparr> \<or>
       (written_back one_dof_env s \<and> 1 < it s)"
    by auto
  with run show ?thesis
    by blast
qed

subsection \<open>Space: numbering, round trip and refinement\<close>

text \<open>The walk over the Elements is the walk over the list of the active Elements.\<close>

lemma walk_data_append:
  "walk_data f s (xs @ ys) =
     (case walk_data f s xs of (s1, xs') \<Rightarrow>
        (case walk_data f s1 ys of (s2, ys') \<Rightarrow> (s2, xs' @ ys')))"
  by (induction xs arbitrary: s) (auto split: prod.splits)

lemma walk_active_data:
  "walk_data f s (active_elements e) =
     (fst (walk_active f s e), active_elements (snd (walk_active f s e)))"
  by (induction e arbitrary: s) (auto simp: walk_data_append split: prod.splits)

lemma walk_elements_data:
  "walk_data f s (concat (map active_elements es)) =
     (fst (walk_elements f s es), concat (map active_elements (snd (walk_elements f s es))))"
  by (induction es arbitrary: s) (auto simp: walk_data_append walk_active_data split: prod.splits)

lemma active_elements_map_active:
  "active_elements (map_active f e) = map f (active_elements e)"
  by (induction e) auto

text \<open>What one pass of \<open>assign_dofs\<close> over the slots of an Element does.\<close>

lemma fold_assign_slot_fst:
  "fst (fold (assign_slot S a b) xs (n, d)) =
     n + length (filter (\<lambda>x. dirichlet_value S a b x = None) xs)"
  by (induction xs arbitrary: n d) (auto simp: assign_slot_def split: option.splits)

lemma fold_assign_slot_p:
  "p (snd (fold (assign_slot S a b) xs (n, d))) = p d"
  by (induction xs arbitrary: n d) (auto simp: assign_slot_def split: option.splits)

lemma fold_assign_slot_frame:
  "x \<notin> set xs \<Longrightarrow>
     dofs (snd (fold (assign_slot S a b) xs (n, d))) x = dofs d x \<and>
     coeffs (snd (fold (assign_slot S a b) xs (n, d))) x = coeffs d x"
  by (induction xs arbitrary: n d) (auto simp: assign_slot_def split: option.splits)

lemma fold_assign_slot_geometry:
  "x_left (snd (fold (assign_slot S a b) xs (n, d))) = x_left d \<and>
   x_right (snd (fold (assign_slot S a b) xs (n, d))) = x_right d"
  by (induction xs arbitrary: n d) (auto simp: assign_slot_def split: option.splits)

lemma free_plus_constrained:
  "free_count S n_act k d + constrained_count S n_act k d = n_eq S * Suc (p d)"
proof -
  have "free_count S n_act k d + constrained_count S n_act k d = length (slots (n_eq S) d)"
    unfolding free_count_def constrained_count_def
    using sum_length_filter_compl [of "\<lambda>x. dirichlet_value S (k = 0) (Suc k = n_act) x = None" "slots (n_eq S) d"]
    by simp
  then show ?thesis by (simp add: slots_def)
qed

lemma assign_element_fst:
  "fst (assign_element S n_act (k, n) d) = (Suc k, n + free_count S n_act k d)"
  using fold_assign_slot_fst [of S "k = 0" "Suc k = n_act" "slots (n_eq S) d" n d]
  by (simp add: assign_element_def free_count_def case_prod_beta)

lemma assign_element_p: "p (snd (assign_element S n_act (k, n) d)) = p d"
  using fold_assign_slot_p [of S "k = 0" "Suc k = n_act" "slots (n_eq S) d" n d]
  by (simp add: assign_element_def case_prod_beta)

lemma walk_data_assign_fst:
  "fst (walk_data (assign_element S n_act) (k, n) ds) =
     (k + length ds, n + sum_list (map (\<lambda>(i, d). free_count S n_act i d) (List.enumerate k ds)))"
proof (induction ds arbitrary: k n)
  case Nil
  then show ?case by simp
next
  case (Cons d ds)
  obtain d' where a: "assign_element S n_act (k, n) d = ((Suc k, n + free_count S n_act k d), d')"
    using assign_element_fst [of S n_act k n d] by (cases "assign_element S n_act (k, n) d") auto
  show ?case
    using Cons.IH [of "Suc k" "n + free_count S n_act k d"]
    by (simp add: a case_prod_beta)
qed

lemma walk_data_assign_p:
  "map p (snd (walk_data (assign_element S n_act) (k, n) ds)) = map p ds"
proof (induction ds arbitrary: k n)
  case Nil
  then show ?case by simp
next
  case (Cons d ds)
  obtain d' where a: "assign_element S n_act (k, n) d = ((Suc k, n + free_count S n_act k d), d')"
    using assign_element_fst [of S n_act k n d] by (cases "assign_element S n_act (k, n) d") auto
  have pd: "p d' = p d" using assign_element_p [of S n_act k n d] by (simp add: a)
  show ?case
    using Cons.IH [of "Suc k" "n + free_count S n_act k d"]
    by (simp add: a pd case_prod_beta)
qed

lemma sum_free_constrained:
  "sum_list (map (\<lambda>(i, d). free_count S n_act i d) (List.enumerate k ds)) +
   sum_list (map (\<lambda>(i, d). constrained_count S n_act i d) (List.enumerate k ds)) =
   sum_list (map (\<lambda>d. n_eq S * Suc (p d)) ds)"
proof (induction ds arbitrary: k)
  case Nil
  then show ?case by simp
next
  case (Cons d ds)
  from Cons.IH [of "Suc k"] free_plus_constrained [of S n_act k d]
  show ?case by simp
qed

lemma assign_dofs_walk:
  "assign_dofs S =
     (snd (fst (walk_data (assign_element S (get_n_active_elem S)) (0, 0) (space_active S))),
      S\<lparr>elements := snd (walk_elements (assign_element S (get_n_active_elem S)) (0, 0) (elements S)),
        n_dof := snd (fst (walk_data (assign_element S (get_n_active_elem S)) (0, 0) (space_active S)))\<rparr>)"
  by (simp add: assign_dofs_def space_active_def walk_elements_data case_prod_beta)

lemma space_active_assign_dofs:
  "space_active (snd (assign_dofs S)) =
     snd (walk_data (assign_element S (get_n_active_elem S)) (0, 0) (space_active S))"
  by (simp add: assign_dofs_walk) (simp add: space_active_def walk_elements_data)

lemma assign_dofs_count_sum:
  "fst (assign_dofs S) + n_dirichlet_constrained S = total_local_coefficients S \<and>
   int (fst (assign_dofs S)) = int (total_local_coefficients S) - int (n_dirichlet_constrained S) \<and>
   n_dof (snd (assign_dofs S)) = fst (assign_dofs S)"
proof -
  have "fst (assign_dofs S) =
      sum_list (map (\<lambda>(i, d). free_count S (get_n_active_elem S) i d) (List.enumerate 0 (space_active S)))"
    by (simp add: assign_dofs_walk walk_data_assign_fst)
  moreover have "n_dirichlet_constrained S =
      sum_list (map (\<lambda>(i, d). constrained_count S (get_n_active_elem S) i d) (List.enumerate 0 (space_active S)))"
    by (simp add: n_dirichlet_constrained_def constrained_count_def)
  ultimately have "fst (assign_dofs S) + n_dirichlet_constrained S = total_local_coefficients S"
    using sum_free_constrained [of S "get_n_active_elem S" 0 "space_active S"]
    by (simp add: total_local_coefficients_def)
  moreover have "n_dof (snd (assign_dofs S)) = fst (assign_dofs S)"
    by (simp add: assign_dofs_walk)
  ultimately show ?thesis by simp
qed

text \<open>A second pass over an Element that has been numbered changes nothing.\<close>

lemma same_outside_Nil: "same_outside S a b [] d e \<Longrightarrow> d = e"
  by (cases d; cases e) (auto simp: same_outside_def)

lemma same_outside_step:
  assumes "same_outside S a b (x # xs) d e"
  shows "fst (assign_slot S a b x (n, d)) = fst (assign_slot S a b x (n, e)) \<and>
     same_outside S a b xs (snd (assign_slot S a b x (n, d))) (snd (assign_slot S a b x (n, e)))"
proof -
  from assms have g: "x_left d = x_left e" "x_right d = x_right e" "p d = p e"
    unfolding same_outside_def by blast+
  from assms have dd: "dofs d y = dofs e y" if "y \<notin> set (x # xs)" for y
    using that unfolding same_outside_def by blast
  from assms have cc: "coeffs d y = coeffs e y"
    if "y \<notin> set (x # xs) \<or> dirichlet_value S a b y = None" for y
    using that unfolding same_outside_def by blast
  show ?thesis
  proof (cases "dirichlet_value S a b x")
    case None
    have "coeffs d y = coeffs e y" if "y \<notin> set xs \<or> dirichlet_value S a b y = None" for y
      using that None cc [of y] by (cases "y = x") auto
    moreover have "((dofs d)(x := int n)) y = ((dofs e)(x := int n)) y" if "y \<notin> set xs" for y
      using that dd [of y] by (cases "y = x") auto
    ultimately show ?thesis
      using g None unfolding same_outside_def assign_slot_def by simp
  next
    case (Some v)
    have "((coeffs d)(x := v)) y = ((coeffs e)(x := v)) y"
      if "y \<notin> set xs \<or> dirichlet_value S a b y = None" for y
      using that cc [of y] by (cases "y = x") auto
    moreover have "((dofs d)(x := - 1)) y = ((dofs e)(x := - 1)) y" if "y \<notin> set xs" for y
      using that dd [of y] by (cases "y = x") auto
    ultimately show ?thesis
      using g Some unfolding same_outside_def assign_slot_def by simp
  qed
qed

lemma fold_assign_slot_same_outside:
  "same_outside S a b xs d e \<Longrightarrow>
     fold (assign_slot S a b) xs (n, d) = fold (assign_slot S a b) xs (n, e)"
proof (induction xs arbitrary: n d e)
  case Nil
  then show ?case by (simp add: same_outside_Nil)
next
  case (Cons x xs)
  from same_outside_step [OF Cons.prems, of n]
  obtain n1 d1 e1 where s: "assign_slot S a b x (n, d) = (n1, d1)"
    "assign_slot S a b x (n, e) = (n1, e1)" "same_outside S a b xs d1 e1"
    by (cases "assign_slot S a b x (n, d)"; cases "assign_slot S a b x (n, e)") auto
  from Cons.IH [OF s(3), of n1] show ?case by (simp add: s)
qed

lemma fold_assign_slot_coeffs_free:
  "dirichlet_value S a b x = None \<Longrightarrow>
     coeffs (snd (fold (assign_slot S a b) xs (n, d))) x = coeffs d x"
  by (induction xs arbitrary: n d) (auto simp: assign_slot_def split: option.splits)

lemma fold_assign_slot_again:
  "fold (assign_slot S a b) xs (n, snd (fold (assign_slot S a b) xs (n, d))) =
     fold (assign_slot S a b) xs (n, d)"
proof (rule fold_assign_slot_same_outside)
  show "same_outside S a b xs (snd (fold (assign_slot S a b) xs (n, d))) d"
    unfolding same_outside_def
    using fold_assign_slot_p [of S a b xs n d] fold_assign_slot_geometry [of S a b xs n d]
      fold_assign_slot_frame [of _ xs S a b n d] fold_assign_slot_coeffs_free [of S a b _ xs n d]
    by auto
qed

lemma assign_element_again:
  "assign_element S n_act s (snd (assign_element S n_act s d)) = assign_element S n_act s d"
proof (cases s)
  case (Pair k n)
  have sl: "slots (n_eq S) (snd (fold (assign_slot S (k = 0) (Suc k = n_act)) (slots (n_eq S) d) (n, d)))
      = slots (n_eq S) d"
    by (simp add: slots_def fold_assign_slot_p)
  show ?thesis
    using fold_assign_slot_again [of S "k = 0" "Suc k = n_act" "slots (n_eq S) d" n d]
    by (simp add: Pair assign_element_def case_prod_beta sl)
qed

lemma walk_active_again:
  assumes "\<And>s d. f s (snd (f s d)) = f s d"
  shows "walk_active f s (snd (walk_active f s e)) = walk_active f s e"
proof (induction e arbitrary: s)
  case (Active d)
  show ?case using assms [of s d] by (simp add: case_prod_beta)
next
  case (Inactive d l r)
  show ?case
    using Inactive.IH(1) [of s] Inactive.IH(2) [of "fst (walk_active f s l)"]
    by (simp add: case_prod_beta)
qed

lemma walk_elements_again:
  assumes "\<And>s d. f s (snd (f s d)) = f s d"
  shows "walk_elements f s (snd (walk_elements f s es)) = walk_elements f s es"
proof (induction es arbitrary: s)
  case Nil
  show ?case by simp
next
  case (Cons e es)
  show ?case
    using walk_active_again [of f s e, OF assms] Cons.IH [of "fst (walk_active f s e)"]
    by (simp add: case_prod_beta)
qed

lemma dirichlet_value_cong:
  assumes l: "bc_left S' = bc_left S" and r: "bc_right S' = bc_right S"
  shows "dirichlet_value S' = dirichlet_value S"
  by (intro ext) (simp only: dirichlet_value_def l r)

lemma assign_slot_cong:
  assumes l: "bc_left S' = bc_left S" and r: "bc_right S' = bc_right S"
  shows "assign_slot S' = assign_slot S"
  by (intro ext) (simp only: assign_slot_def dirichlet_value_cong [OF l r])

lemma assign_element_cong:
  assumes n: "n_eq S' = n_eq S" and l: "bc_left S' = bc_left S" and r: "bc_right S' = bc_right S"
  shows "assign_element S' = assign_element S"
  by (intro ext) (simp only: assign_element_def assign_slot_cong [OF l r] n)

lemma length_walk_data: "length (snd (walk_data f s ds)) = length ds"
  by (induction ds arbitrary: s) (auto simp: case_prod_beta)

lemma get_n_active_elem_assign_dofs:
  "get_n_active_elem (snd (assign_dofs S)) = get_n_active_elem S"
  by (simp add: get_n_active_elem_def space_active_assign_dofs length_walk_data)

lemma assign_dofs_eq:
  "assign_dofs S =
     (snd (fst (walk_elements (assign_element S (get_n_active_elem S)) (0, 0) (elements S))),
      S\<lparr>elements := snd (walk_elements (assign_element S (get_n_active_elem S)) (0, 0) (elements S)),
        n_dof := snd (fst (walk_elements (assign_element S (get_n_active_elem S)) (0, 0) (elements S)))\<rparr>)"
  by (simp add: assign_dofs_def case_prod_beta)

lemma assign_dofs_fields:
  "n_eq (snd (assign_dofs S)) = n_eq S" "bc_left (snd (assign_dofs S)) = bc_left S"
  "bc_right (snd (assign_dofs S)) = bc_right S"
  "left_endpoint (snd (assign_dofs S)) = left_endpoint S"
  "right_endpoint (snd (assign_dofs S)) = right_endpoint S"
  by (simp_all add: assign_dofs_eq)

lemma assign_dofs_again:
  "assign_dofs (snd (assign_dofs S)) = assign_dofs S"
proof -
  define f where "f = assign_element S (get_n_active_elem S)"
  define W where "W = walk_elements f (0, 0) (elements S)"
  define S1 where "S1 = S\<lparr>elements := snd W, n_dof := snd (fst W)\<rparr>"
  have a: "assign_dofs S = (snd (fst W), S1)"
    unfolding S1_def W_def f_def by (rule assign_dofs_eq)
  have n1: "get_n_active_elem S1 = get_n_active_elem S"
    using get_n_active_elem_assign_dofs [of S] by (simp add: a)
  have "assign_element S1 = assign_element S"
    by (rule assign_element_cong) (simp_all add: S1_def)
  then have f1: "assign_element S1 (get_n_active_elem S1) = f"
    by (simp add: n1 f_def)
  have w: "walk_elements f (0, 0) (elements S1) = W"
  proof -
    have "elements S1 = snd (walk_elements f (0, 0) (elements S))"
      by (simp add: S1_def W_def)
    moreover have "walk_elements f (0, 0) (snd (walk_elements f (0, 0) (elements S))) =
        walk_elements f (0, 0) (elements S)"
      unfolding f_def by (rule walk_elements_again) (rule assign_element_again)
    ultimately show ?thesis by (simp add: W_def)
  qed
  have "assign_dofs S1 = (snd (fst W), S1\<lparr>elements := snd W, n_dof := snd (fst W)\<rparr>)"
    using assign_dofs_eq [of S1] by (simp only: f1 w)
  also have "S1\<lparr>elements := snd W, n_dof := snd (fst W)\<rparr> = S1"
    by (simp add: S1_def)
  finally show ?thesis by (simp add: a)
qed

text \<open>
  The indices written by \<open>solution_to_vector\<close>, and the indices that
  \<open>assign_dofs\<close> hands out: every index below the count, and no other.
\<close>

lemma written_Nil: "written d [] = {}"
  by (simp add: written_def)

lemma written_Cons:
  "written d (x # xs) = (if 0 \<le> dofs d x then {nat (dofs d x)} else {}) \<union> written d xs"
  by (auto simp: written_def)

lemma written_cong: "dofs d = dofs e \<Longrightarrow> written d xs = written e xs"
  by (simp add: written_def)

lemma v2s_fold_dofs_p:
  "dofs (fold (\<lambda>x e. if 0 \<le> dofs e x then e\<lparr>coeffs := (coeffs e)(x := y (nat (dofs e x)))\<rparr> else e) xs d) = dofs d \<and>
   p (fold (\<lambda>x e. if 0 \<le> dofs e x then e\<lparr>coeffs := (coeffs e)(x := y (nat (dofs e x)))\<rparr> else e) xs d) = p d"
  by (induction xs arbitrary: d) auto

lemma v2s_fold_coeffs:
  "x \<in> set xs \<Longrightarrow> 0 \<le> dofs d x \<Longrightarrow>
   coeffs (fold (\<lambda>x e. if 0 \<le> dofs e x then e\<lparr>coeffs := (coeffs e)(x := y (nat (dofs e x)))\<rparr> else e) xs d) x
     = y (nat (dofs d x))"
proof (induction xs arbitrary: x rule: rev_induct)
  case Nil
  then show ?case by simp
next
  case (snoc z zs)
  show ?case
  proof (cases "x = z")
    case True
    with snoc.prems show ?thesis by (simp add: v2s_fold_dofs_p)
  next
    case False
    with snoc.prems have "x \<in> set zs" by simp
    from snoc.IH [OF this snoc.prems(2)] False show ?thesis
      by (simp add: v2s_fold_dofs_p)
  qed
qed

lemma vector_to_solution_element_dofs [simp]:
  "dofs (vector_to_solution_element neq y d) = dofs d"
  "p (vector_to_solution_element neq y d) = p d"
  by (simp_all add: vector_to_solution_element_def v2s_fold_dofs_p)

lemma vector_to_solution_element_coeffs:
  "x \<in> set (slots neq d) \<Longrightarrow> 0 \<le> dofs d x \<Longrightarrow>
     coeffs (vector_to_solution_element neq y d) x = y (nat (dofs d x))"
  by (simp add: vector_to_solution_element_def v2s_fold_coeffs)

lemma slots_vector_to_solution_element [simp]:
  "slots neq (vector_to_solution_element neq' y d) = slots neq d"
  by (simp add: slots_def)

lemma s2v_fold:
  "(\<And>x. x \<in> set xs \<Longrightarrow> 0 \<le> dofs d x \<Longrightarrow> coeffs d x = t (nat (dofs d x))) \<Longrightarrow>
   fold (\<lambda>x v. if 0 \<le> dofs d x then v(nat (dofs d x) := coeffs d x) else v) xs v =
     (\<lambda>i. if i \<in> written d xs then t i else v i)"
proof (induction xs arbitrary: v)
  case Nil
  then show ?case by (simp add: written_Nil)
next
  case (Cons x xs)
  have ih: "fold (\<lambda>x v. if 0 \<le> dofs d x then v(nat (dofs d x) := coeffs d x) else v) xs w =
     (\<lambda>i. if i \<in> written d xs then t i else w i)" for w
    using Cons.IH [of w] Cons.prems by simp
  have cx: "0 \<le> dofs d x \<Longrightarrow> coeffs d x = t (nat (dofs d x))"
    using Cons.prems [of x] by simp
  show ?case
    using cx by (auto simp: ih written_Cons fun_eq_iff)
qed

lemma solution_to_vector_element_eq:
  "(\<And>x. x \<in> set (slots neq d) \<Longrightarrow> 0 \<le> dofs d x \<Longrightarrow> coeffs d x = t (nat (dofs d x))) \<Longrightarrow>
   solution_to_vector_element neq d v = (\<lambda>i. if i \<in> written d (slots neq d) then t i else v i)"
  unfolding solution_to_vector_element_def by (rule s2v_fold)

lemma fold_solution_to_vector_element:
  "(\<And>d x. d \<in> set ds \<Longrightarrow> x \<in> set (slots neq d) \<Longrightarrow> 0 \<le> dofs d x \<Longrightarrow>
       coeffs d x = t (nat (dofs d x))) \<Longrightarrow>
   fold (solution_to_vector_element neq) ds v =
     (\<lambda>i. if i \<in> (\<Union>d\<in>set ds. written d (slots neq d)) then t i else v i)"
proof (induction ds arbitrary: v)
  case Nil
  then show ?case by simp
next
  case (Cons d ds)
  have e: "solution_to_vector_element neq d v =
      (\<lambda>i. if i \<in> written d (slots neq d) then t i else v i)"
    by (rule solution_to_vector_element_eq) (simp add: Cons.prems)
  have "fold (solution_to_vector_element neq) ds (solution_to_vector_element neq d v) =
     (\<lambda>i. if i \<in> (\<Union>d\<in>set ds. written d (slots neq d)) then t i
           else solution_to_vector_element neq d v i)"
    by (rule Cons.IH) (simp add: Cons.prems)
  then show ?case
    by (auto simp: e fun_eq_iff)
qed

lemma fold_assign_slot_mono:
  "n \<le> fst (fold (assign_slot S a b) xs (n, d))"
  by (simp add: fold_assign_slot_fst)

lemma fold_assign_slot_written:
  "distinct xs \<Longrightarrow>
     written (snd (fold (assign_slot S a b) xs (n, d))) xs = {n..<fst (fold (assign_slot S a b) xs (n, d))}"
proof (induction xs arbitrary: n d)
  case Nil
  then show ?case by (simp add: written_Nil)
next
  case (Cons x xs)
  from Cons.prems have nx: "x \<notin> set xs" and dxs: "distinct xs" by simp_all
  show ?case
  proof (cases "dirichlet_value S a b x")
    case None
    define d1 where "d1 = d\<lparr>dofs := (dofs d)(x := int n)\<rparr>"
    define r where "r = fold (assign_slot S a b) xs (Suc n, d1)"
    have step: "assign_slot S a b x (n, d) = (Suc n, d1)"
      by (simp add: assign_slot_def None d1_def)
    have r: "fold (assign_slot S a b) (x # xs) (n, d) = r"
      by (simp add: step r_def)
    have dx: "dofs (snd r) x = int n"
      using fold_assign_slot_frame [OF nx, of S a b "Suc n" d1] by (simp add: r_def d1_def)
    have le: "Suc n \<le> fst r"
      unfolding r_def by (rule fold_assign_slot_mono)
    have ih: "written (snd r) xs = {Suc n..<fst r}"
      unfolding r_def by (rule Cons.IH [OF dxs])
    have "written (snd r) (x # xs) = {n..<fst r}"
      using dx le by (auto simp: written_Cons ih)
    then show ?thesis by (simp only: r)
  next
    case (Some v)
    define d1 where "d1 = d\<lparr>coeffs := (coeffs d)(x := v), dofs := (dofs d)(x := - 1)\<rparr>"
    define r where "r = fold (assign_slot S a b) xs (n, d1)"
    have step: "assign_slot S a b x (n, d) = (n, d1)"
      by (simp add: assign_slot_def Some d1_def)
    have r: "fold (assign_slot S a b) (x # xs) (n, d) = r"
      by (simp add: step r_def)
    have dx: "dofs (snd r) x = - 1"
      using fold_assign_slot_frame [OF nx, of S a b n d1] by (simp add: r_def d1_def)
    have ih: "written (snd r) xs = {n..<fst r}"
      unfolding r_def by (rule Cons.IH [OF dxs])
    have "written (snd r) (x # xs) = {n..<fst r}"
      using dx by (simp add: written_Cons ih)
    then show ?thesis by (simp only: r)
  qed
qed

lemma distinct_slots: "distinct (slots neq d)"
  by (simp add: slots_def distinct_product)

lemma assign_element_snd:
  "snd (assign_element S n_act (k, n) d) =
     snd (fold (assign_slot S (k = 0) (Suc k = n_act)) (slots (n_eq S) d) (n, d))"
  by (simp add: assign_element_def case_prod_beta)

lemma assign_element_written:
  "written (snd (assign_element S n_act (k, n) d)) (slots (n_eq S) d) =
     {n..<snd (fst (assign_element S n_act (k, n) d))}"
  using fold_assign_slot_written [OF distinct_slots, of S "k = 0" "Suc k = n_act" "n_eq S" d n d]
    fold_assign_slot_fst [of S "k = 0" "Suc k = n_act" "slots (n_eq S) d" n d]
  by (simp add: assign_element_snd assign_element_fst free_count_def)

lemma walk_data_assign_written:
  "(\<Union>d'\<in>set (snd (walk_data (assign_element S n_act) (k, n) ds)). written d' (slots (n_eq S) d')) =
     {n..<snd (fst (walk_data (assign_element S n_act) (k, n) ds))}"
proof (induction ds arbitrary: k n)
  case Nil
  then show ?case by simp
next
  case (Cons d ds)
  define n1 where "n1 = n + free_count S n_act k d"
  define d' where "d' = snd (assign_element S n_act (k, n) d)"
  have a: "assign_element S n_act (k, n) d = ((Suc k, n1), d')"
    using assign_element_fst [of S n_act k n d]
    by (cases "assign_element S n_act (k, n) d") (simp add: n1_def d'_def)
  have sl: "slots (n_eq S) d' = slots (n_eq S) d"
    using assign_element_p [of S n_act k n d] by (simp add: slots_def d'_def)
  have w1: "written d' (slots (n_eq S) d') = {n..<n1}"
    using assign_element_written [of S n_act k n d] by (simp add: a sl)
  have le1: "n \<le> n1" by (simp add: n1_def)
  have le2: "n1 \<le> snd (fst (walk_data (assign_element S n_act) (Suc k, n1) ds))"
    by (simp add: walk_data_assign_fst)
  show ?case
    using Cons.IH [of "Suc k" n1] w1 le1 le2
    by (auto simp: a case_prod_beta)
qed

lemma space_active_vector_to_solution:
  "space_active (vector_to_solution y S) =
     map (vector_to_solution_element (n_eq S) y) (space_active S)"
  by (simp add: space_active_def vector_to_solution_def active_elements_map_active map_concat
      comp_def)

text \<open>
  The constrained coefficients in closed form: one per equation with a Dirichlet
  condition at the left end, one per equation with one at the right end.
\<close>

lemma length_filter_product:
  "length (filter P (List.product xs ys)) =
     sum_list (map (\<lambda>c. length (filter (\<lambda>j. P (c, j)) ys)) xs)"
  by (induction xs) (simp_all add: filter_map comp_def)

lemma sum_list_indicator:
  "sum_list (map (\<lambda>c. if P c then 1 else 0) xs) = length (filter P xs)"
  by (induction xs) simp_all

lemma filter_upt_from_2:
  "filter (\<lambda>j. dirichlet_value S a b (c, j) \<noteq> None) [2..<m] = []"
  unfolding filter_empty_conv by (simp add: dirichlet_value_def)

lemma count_row:
  "length (filter (\<lambda>j. dirichlet_value S a b (c, j) \<noteq> None) [0..<Suc q]) =
     (if a \<and> bc_left S c \<noteq> Neumann then 1 else 0) +
     (if b \<and> 1 \<le> q \<and> bc_right S c \<noteq> Neumann then 1 else 0)"
proof (cases q)
  case 0
  have "[0..<Suc q] = [0]"
    using 0 by simp
  then have "length (filter (\<lambda>j. dirichlet_value S a b (c, j) \<noteq> None) [0..<Suc q]) =
      length (filter (\<lambda>j. dirichlet_value S a b (c, j) \<noteq> None) [0])"
    by (simp only:)
  also have "\<dots> = (if a \<and> bc_left S c \<noteq> Neumann then 1 else 0)"
    by (cases "bc_left S c") (simp_all add: dirichlet_value_def)
  finally show ?thesis using 0 by simp
next
  case (Suc q')
  have "[0..<Suc q] = 0 # [Suc 0..<Suc q]"
    by (rule upt_conv_Cons) simp
  also have "[Suc 0..<Suc q] = Suc 0 # [Suc (Suc 0)..<Suc q]"
    by (rule upt_conv_Cons) (simp add: Suc)
  finally have u: "[0..<Suc q] = 0 # 1 # [2..<Suc q]"
    by (simp add: numeral_2_eq_2)
  have "filter (\<lambda>j. dirichlet_value S a b (c, j) \<noteq> None) [0..<Suc q] =
      filter (\<lambda>j. dirichlet_value S a b (c, j) \<noteq> None) [0, 1]"
    unfolding u using filter_upt_from_2 [of S a b c "Suc q"] by simp
  then have "length (filter (\<lambda>j. dirichlet_value S a b (c, j) \<noteq> None) [0..<Suc q]) =
      length (filter (\<lambda>j. dirichlet_value S a b (c, j) \<noteq> None) [0, 1])"
    by (simp only:)
  also have "\<dots> = (if a \<and> bc_left S c \<noteq> Neumann then 1 else 0) +
     (if b \<and> bc_right S c \<noteq> Neumann then 1 else 0)"
    by (cases "bc_left S c"; cases "bc_right S c") (simp_all add: dirichlet_value_def)
  finally show ?thesis using Suc by simp
qed

lemma sum_list_indicator_and:
  "sum_list (map (\<lambda>c. if A \<and> P c then 1 else 0) xs) = (if A then length (filter P xs) else 0)"
  by (cases A) (simp_all add: sum_list_indicator)

lemma constrained_count_eq:
  "constrained_count S n_act k d =
     (if k = 0 then n_dirichlet_left S else 0) +
     (if Suc k = n_act \<and> 1 \<le> p d then n_dirichlet_right S else 0)"
proof -
  have "constrained_count S n_act k d =
      sum_list (map (\<lambda>c. (if k = 0 \<and> bc_left S c \<noteq> Neumann then 1 else 0) +
         (if Suc k = n_act \<and> 1 \<le> p d \<and> bc_right S c \<noteq> Neumann then 1 else 0)) [0..<n_eq S])"
    unfolding constrained_count_def slots_def length_filter_product count_row by (rule refl)
  also have "\<dots> =
      sum_list (map (\<lambda>c. if k = 0 \<and> bc_left S c \<noteq> Neumann then 1 else 0) [0..<n_eq S]) +
      sum_list (map (\<lambda>c. if (Suc k = n_act \<and> 1 \<le> p d) \<and> bc_right S c \<noteq> Neumann then 1 else 0)
        [0..<n_eq S])"
    by (simp add: sum_list_addf conj_assoc)
  also have "\<dots> = (if k = 0 then n_dirichlet_left S else 0) +
     (if Suc k = n_act \<and> 1 \<le> p d then n_dirichlet_right S else 0)"
    unfolding sum_list_indicator_and n_dirichlet_left_def n_dirichlet_right_def by (rule refl)
  finally show ?thesis .
qed

lemma sum_constrained_count:
  "ds \<noteq> [] \<Longrightarrow> 1 \<le> p (last ds) \<Longrightarrow>
     sum_list (map (\<lambda>(i, d). constrained_count S (k + length ds) i d) (List.enumerate k ds)) =
       (if k = 0 then n_dirichlet_left S else 0) + n_dirichlet_right S"
proof (induction ds arbitrary: k)
  case Nil
  then show ?case by simp
next
  case (Cons d ds)
  show ?case
  proof (cases "ds = []")
    case True
    with Cons.prems show ?thesis by (simp add: constrained_count_eq)
  next
    case False
    with Cons.prems have "1 \<le> p (last ds)" by simp
    from Cons.IH [OF False this, of "Suc k"] False show ?thesis
      by (simp add: constrained_count_eq)
  qed
qed

lemma n_dirichlet_constrained_eq:
  "space_active S \<noteq> [] \<Longrightarrow> 1 \<le> p (last (space_active S)) \<Longrightarrow>
     n_dirichlet_constrained S = n_dirichlet_left S + n_dirichlet_right S"
  using sum_constrained_count [of "space_active S" S 0]
  by (simp add: n_dirichlet_constrained_def constrained_count_def get_n_active_elem_def)

text \<open>The active Elements and the local coefficients of the refined Space.\<close>

lemma active_elements_refine_active:
  "active_elements (refine_active pol inc e) =
     concat (map (\<lambda>d. active_elements (refine_element pol inc d)) (active_elements e))"
  by (induction e) auto

lemma concat_active_refined:
  "concat (map active_elements (map (refine_active pol inc) es)) =
     concat (map (\<lambda>d. active_elements (refine_element pol inc d)) (concat (map active_elements es)))"
  by (induction es) (simp_all add: active_elements_refine_active)

lemma space_active_refined:
  "space_active (S\<lparr>elements := map (refine_active pol inc) (elements S)\<rparr>) =
     concat (map (\<lambda>d. active_elements (refine_element pol inc d)) (space_active S))"
  by (simp add: space_active_def concat_active_refined del: map_map)

lemma sum_list_concat_map:
  "sum_list (map f (concat xss)) = sum_list (map (\<lambda>xs. sum_list (map f xs)) xss)"
  by (induction xss) simp_all

lemma total_refined:
  "total_local_coefficients (S\<lparr>elements := map (refine_active pol inc) (elements S)\<rparr>) =
     sum_list (map (\<lambda>d. sum_list (map (\<lambda>d'. n_eq S * Suc (p d'))
        (active_elements (refine_element pol inc d)))) (space_active S))"
  unfolding total_local_coefficients_def space_active_refined
  by (simp add: sum_list_concat_map comp_def)

lemma refine_element_more:
  "0 < neq \<Longrightarrow> 0 < inc \<Longrightarrow>
     neq * Suc (p d) < sum_list (map (\<lambda>d'. neq * Suc (p d')) (active_elements (refine_element pol inc d)))"
  by (cases pol) (simp_all add: refine_element_def Let_def add_mult_distrib2)

lemma refine_element_degree:
  "1 \<le> p d \<Longrightarrow> list_all (\<lambda>d'. 1 \<le> p d') (active_elements (refine_element pol inc d))"
  by (cases pol) (simp_all add: refine_element_def Let_def)

lemma refine_element_nonempty: "active_elements (refine_element pol inc d) \<noteq> []"
  by (cases pol) (simp_all add: refine_element_def Let_def)

lemma space_wf_refined:
  assumes "space_wf S"
  shows "space_wf (S\<lparr>elements := map (refine_active pol inc) (elements S)\<rparr>)"
proof -
  from assms obtain d ds where ds: "space_active S = d # ds"
    by (cases "space_active S") (auto simp: space_wf_def)
  have "list_all (\<lambda>d'. 1 \<le> p d')
      (concat (map (\<lambda>d. active_elements (refine_element pol inc d)) (space_active S)))"
    using assms refine_element_degree [of _ pol inc]
    by (auto simp: space_wf_def list_all_iff)
  moreover have "concat (map (\<lambda>d. active_elements (refine_element pol inc d)) (space_active S)) \<noteq> []"
    using refine_element_nonempty [of pol inc d] by (simp add: ds)
  ultimately show ?thesis
    using assms by (simp add: space_wf_def space_active_refined)
qed

lemma space_wf_last: "space_wf S \<Longrightarrow> space_active S \<noteq> [] \<and> 1 \<le> p (last (space_active S))"
  using last_in_set [of "space_active S"] by (auto simp: space_wf_def list_all_iff)

lemma assign_dofs_closed_form:
  "space_wf S \<Longrightarrow>
     fst (assign_dofs S) + (n_dirichlet_left S + n_dirichlet_right S) = total_local_coefficients S"
  using assign_dofs_count_sum [of S] n_dirichlet_constrained_eq [of S] space_wf_last [of S]
  by simp

text \<open>The Space of the test.\<close>

lemma space_active_test_space:
  "space_active test_space =
     [\<lparr>x_left = - 1, x_right = 0, p = 1, coeffs = (\<lambda>x. 0), dofs = (\<lambda>x. - 1)\<rparr>,
      \<lparr>x_left = 0, x_right = 1, p = 1, coeffs = (\<lambda>x. 0), dofs = (\<lambda>x. - 1)\<rparr>]"
  by (simp add: test_space_def space_active_def set_bc_left_dirichlet_def set_bc_right_dirichlet_def)

lemma space_wf_test_space: "space_wf test_space"
  by (simp add: space_wf_def space_active_test_space)
    (simp add: test_space_def set_bc_left_dirichlet_def set_bc_right_dirichlet_def)

lemma test_space_counts:
  "total_local_coefficients test_space = 4" "n_dirichlet_left test_space = 1"
  "n_dirichlet_right test_space = 1"
  by (simp_all add: total_local_coefficients_def space_active_test_space n_dirichlet_left_def
      n_dirichlet_right_def)
    (simp_all add: test_space_def set_bc_left_dirichlet_def set_bc_right_dirichlet_def)

lemma test_space_n_dof: "fst (assign_dofs test_space) = 2"
  using assign_dofs_closed_form [OF space_wf_test_space] by (simp add: test_space_counts)

lemma space_wf_assign_dofs: "space_wf S \<Longrightarrow> space_wf (snd (assign_dofs S))"
  using walk_data_assign_p [of S "get_n_active_elem S" 0 0 "space_active S"]
    length_walk_data [of "assign_element S (get_n_active_elem S)" "(0, 0)" "space_active S"]
  apply (simp add: space_wf_def space_active_assign_dofs assign_dofs_fields list_all_iff)
  by (metis (no_types, lifting) length_0_conv list.set_map imageE imageI)

text \<open>
  \<open>test_space\<close> is the Space that \<open>main.cpp\<close> builds (lines 105 to 107), and
  \<open>assign_dofs\<close> numbers its four local coefficients as constrained, 0, 1, constrained.
\<close>

lemma test_space_from_main:
  "1 \<le> m \<Longrightarrow>
   map_sum id (\<lambda>S. set_bc_right_dirichlet 0 0 (set_bc_left_dirichlet 0 0 S))
     (Space_new m (- 1) 1 2 1 1) = Inr test_space"
  by (simp add: Space_new_def test_space_def eval_nat_numeral)

lemma assign_dofs_test_space:
  "map (\<lambda>d. (dofs d (0, 0), dofs d (0, 1))) (space_active (snd (assign_dofs test_space))) =
     [(- 1, 0), (1, - 1)]"
  unfolding space_active_assign_dofs get_n_active_elem_def space_active_test_space
  by (simp add: assign_element_def assign_slot_def dirichlet_value_def slots_def
      test_space_def set_bc_left_dirichlet_def set_bc_right_dirichlet_def)

lemma n_dirichlet_constrained_test_space: "n_dirichlet_constrained test_space = 2"
  using n_dirichlet_constrained_eq [of test_space] space_wf_last [OF space_wf_test_space]
  by (simp add: test_space_counts)

lemma get_num_dofs_assigned_test_space: "get_num_dofs (snd (assign_dofs test_space)) = 2"
  using assign_dofs_count_sum [of test_space] by (simp add: get_num_dofs_def test_space_n_dof)

text \<open>
  Claim C6: for every valid boundary configuration \<open>assign_dofs()\<close> returns a count equal
  to the number of local coefficients of all active Elements minus the number of
  Dirichlet-constrained coefficients, and a second call with nothing changed returns the
  same count and assigns the same indices. For every Space of the model: the count is
  that difference (the constrained coefficients are among the local ones, so nothing is
  cut off), it is the count the Space stores, and \<open>assign_dofs\<close> on the Space it
  returned gives the same count and the same Space again.
\<close>

theorem assign_dofs_count_and_idempotent:
  "int (fst (assign_dofs S)) =
     int (total_local_coefficients S) - int (n_dirichlet_constrained S) \<and>
   n_dirichlet_constrained S \<le> total_local_coefficients S \<and>
   n_dof (snd (assign_dofs S)) = fst (assign_dofs S) \<and>
   assign_dofs (snd (assign_dofs S)) = assign_dofs S"
proof -
  have "fst (assign_dofs S) + n_dirichlet_constrained S = total_local_coefficients S"
    using assign_dofs_count_sum [of S] by simp
  then have "n_dirichlet_constrained S \<le> total_local_coefficients S"
    by linarith
  then show ?thesis
    using assign_dofs_count_sum [of S] assign_dofs_again [of S] by simp
qed

theorem assign_dofs_count_and_idempotent_witness:
  "fst (assign_dofs test_space) = 2 \<and> total_local_coefficients test_space = 4 \<and>
   n_dirichlet_constrained test_space = 2 \<and>
   n_dof (snd (assign_dofs test_space)) = 2 \<and>
   assign_dofs (snd (assign_dofs test_space)) = assign_dofs test_space"
  using assign_dofs_count_and_idempotent [of test_space]
  by (simp add: test_space_counts n_dirichlet_constrained_test_space)

text \<open>
  Claim C7: for every Space and every coefficient vector of the length of the Space's
  count of degrees of freedom, \<open>vector_to_solution\<close> followed by \<open>solution_to_vector\<close>
  gives back exactly the original vector. For every Space whose degrees of freedom
  \<open>assign_dofs\<close> has numbered, every vector \<open>y\<close> and every previous content \<open>y0\<close>
  of the output array: after the round trip the output array holds \<open>y i\<close> at every
  index \<open>i\<close> below the count, and is untouched from the count on. Both functions only
  copy values, so equality of the model's values is equality of the doubles' bits.
\<close>

theorem vector_to_solution_round_trip:
  "solution_to_vector (vector_to_solution y (snd (assign_dofs S))) y0 =
     (\<lambda>i. if i < get_num_dofs (snd (assign_dofs S)) then y i else y0 i)"
proof -
  define S1 where "S1 = snd (assign_dofs S)"
  define ds where "ds = space_active S1"
  define neq where "neq = n_eq S"
  have neq1: "n_eq S1 = neq"
    by (simp add: S1_def neq_def assign_dofs_fields)
  have sa: "ds = snd (walk_data (assign_element S (get_n_active_elem S)) (0, 0) (space_active S))"
    unfolding ds_def S1_def by (rule space_active_assign_dofs)
  have nd: "n_dof S1 = snd (fst (walk_data (assign_element S (get_n_active_elem S)) (0, 0) (space_active S)))"
    by (simp add: S1_def assign_dofs_walk)
  have cover: "(\<Union>d\<in>set ds. written d (slots neq d)) = {0..<n_dof S1}"
    unfolding sa nd neq_def by (rule walk_data_assign_written)
  let ?ds2 = "map (vector_to_solution_element neq y) ds"
  have "solution_to_vector (vector_to_solution y S1) y0 =
      fold (solution_to_vector_element neq) ?ds2 y0"
    by (simp add: solution_to_vector_def space_active_vector_to_solution neq1 ds_def)
      (simp add: vector_to_solution_def neq1)
  also have "\<dots> = (\<lambda>i. if i \<in> (\<Union>d\<in>set ?ds2. written d (slots neq d)) then y i else y0 i)"
    by (rule fold_solution_to_vector_element) (auto simp: vector_to_solution_element_coeffs)
  also have "(\<Union>d\<in>set ?ds2. written d (slots neq d)) = (\<Union>d\<in>set ds. written d (slots neq d))"
    by (simp add: written_def)
  finally show ?thesis
    by (simp add: cover S1_def get_num_dofs_def)
qed

theorem vector_to_solution_round_trip_witness:
  "solution_to_vector (vector_to_solution (\<lambda>i. real i + 5) (snd (assign_dofs test_space)))
     (\<lambda>i. 0) = (\<lambda>i. if i < 2 then real i + 5 else 0)"
  using vector_to_solution_round_trip [of "\<lambda>i. real i + 5" test_space "\<lambda>i. 0"]
  by (simp add: get_num_dofs_assigned_test_space)

text \<open>Numbering keeps the intervals and the degrees of the active Elements.\<close>

lemma assign_element_shape: "shape (snd (assign_element S n_act (k, n) d)) = shape d"
  using fold_assign_slot_p [of S "k = 0" "Suc k = n_act" "slots (n_eq S) d" n d]
    fold_assign_slot_geometry [of S "k = 0" "Suc k = n_act" "slots (n_eq S) d" n d]
  by (simp add: assign_element_def case_prod_beta shape_def)

lemma walk_data_assign_shape:
  "map shape (snd (walk_data (assign_element S n_act) (k, n) ds)) = map shape ds"
proof (induction ds arbitrary: k n)
  case Nil
  then show ?case by simp
next
  case (Cons d ds)
  obtain d' where a: "assign_element S n_act (k, n) d = ((Suc k, n + free_count S n_act k d), d')"
    using assign_element_fst [of S n_act k n d] by (cases "assign_element S n_act (k, n) d") auto
  have pd: "shape d' = shape d" using assign_element_shape [of S n_act k n d] by (simp add: a)
  show ?case
    using Cons.IH [of "Suc k" "n + free_count S n_act k d"]
    by (simp add: a pd case_prod_beta)
qed

lemma shape_assign_dofs:
  "map shape (space_active (snd (assign_dofs S))) = map shape (space_active S)"
  by (simp add: space_active_assign_dofs walk_data_assign_shape)

lemma total_local_coefficients_shape:
  "n_eq S' = n_eq S \<Longrightarrow> map shape (space_active S') = map shape (space_active S) \<Longrightarrow>
     total_local_coefficients S' = total_local_coefficients S"
proof -
  assume n: "n_eq S' = n_eq S" and m: "map shape (space_active S') = map shape (space_active S)"
  have "total_local_coefficients T =
      sum_list (map (\<lambda>s. n_eq T * Suc (snd (snd s))) (map shape (space_active T)))" for T
    by (simp add: total_local_coefficients_def shape_def comp_def)
  then show ?thesis by (simp only: n m)
qed

text \<open>
  Claim C5: for every coarse Space, \<open>construct_refined_space\<close> returns a new reference
  Space with strictly more degrees of freedom than the coarse Space, and leaves the
  coarse Space unmodified. For every store that holds, at an address handed out before,
  a coarse Space that satisfies the invariants of the data model (at least one equation,
  at least one active Element, every degree at least 1) and whose stored count is the
  one \<open>assign_dofs\<close> gives, for each of the three policies and every positive degree
  increment: the call returns a new address, the store still holds the coarse Space at
  its address and is unchanged at every address but the new one, and there it holds a
  Space whose active Elements are the refinements of the coarse ones, whose stored count
  is the count of its own Elements (what \<open>assign_dofs\<close> gives on them, their local
  coefficients minus the constrained ones), with as many constrained coefficients as the
  coarse Space, strictly more local coefficients and a strictly greater count.
\<close>

theorem construct_refined_space_more_dofs:
  assumes co: "spaces h a = Some S" and al: "a < next_free h"
    and wf: "space_wf S" and inc: "0 < inc" and cur: "get_num_dofs S = fst (assign_dofs S)"
  shows "\<exists>r h' R. construct_refined_space pol inc a h = Some (r, h') \<and>
     r \<noteq> a \<and> spaces h' a = Some S \<and> (\<forall>b. b \<noteq> r \<longrightarrow> spaces h' b = spaces h b) \<and>
     spaces h' r = Some R \<and>
     map shape (space_active R) =
       concat (map (\<lambda>d. map shape (active_elements (refine_element pol inc d))) (space_active S)) \<and>
     get_num_dofs R = fst (assign_dofs R) \<and>
     int (get_num_dofs R) = int (total_local_coefficients R) - int (n_dirichlet_constrained R) \<and>
     n_dirichlet_constrained R = n_dirichlet_constrained S \<and>
     total_local_coefficients S < total_local_coefficients R \<and>
     get_num_dofs S < get_num_dofs R"
proof -
  define X where "X = refine_space pol inc S"
  define R where "R = snd (assign_dofs X)"
  define r where "r = next_free h"
  define h' where "h' = h\<lparr>spaces := (spaces h)(r \<mapsto> R), next_free := Suc r\<rparr>"
  have ra: "r \<noteq> a" using al by (simp add: r_def)
  have run: "construct_refined_space pol inc a h = Some (r, h')"
    by (simp add: construct_refined_space_def co heap_new_def heap_update_def r_def h'_def
        R_def X_def)
  have wfX: "space_wf X"
    unfolding X_def refine_space_def using wf by (rule space_wf_refined)
  have wfR: "space_wf R"
    unfolding R_def using wfX by (rule space_wf_assign_dofs)
  have shR: "map shape (space_active R) = map shape (space_active X)"
    unfolding R_def by (rule shape_assign_dofs)
  have shX: "map shape (space_active X) =
      concat (map (\<lambda>d. map shape (active_elements (refine_element pol inc d))) (space_active S))"
    by (simp add: X_def refine_space_def space_active_refined map_concat comp_def)
  have curR: "get_num_dofs R = fst (assign_dofs R)"
    using assign_dofs_count_sum [of X] assign_dofs_again [of X]
    by (simp add: R_def get_num_dofs_def)
  have cntR: "fst (assign_dofs R) + n_dirichlet_constrained R = total_local_coefficients R"
    using assign_dofs_count_sum [of R] by simp
  have bcs: "n_dirichlet_left R = n_dirichlet_left S" "n_dirichlet_right R = n_dirichlet_right S"
    by (simp_all add: R_def X_def refine_space_def n_dirichlet_left_def n_dirichlet_right_def
        assign_dofs_fields)
  have ndR: "n_dirichlet_constrained R = n_dirichlet_constrained S"
    using n_dirichlet_constrained_eq [of R] n_dirichlet_constrained_eq [of S]
      space_wf_last [OF wfR] space_wf_last [OF wf]
    by (simp add: bcs)
  have totRX: "total_local_coefficients R = total_local_coefficients X"
    by (rule total_local_coefficients_shape) (simp_all add: R_def assign_dofs_fields shape_assign_dofs)
  have ne: "space_active S \<noteq> []" and neq: "0 < n_eq S"
    using wf by (simp_all add: space_wf_def)
  have "total_local_coefficients S < total_local_coefficients X"
    unfolding X_def refine_space_def total_refined unfolding total_local_coefficients_def
    using ne refine_element_more [OF neq inc]
    by (intro sum_list_strict_mono) simp_all
  then have tot: "total_local_coefficients S < total_local_coefficients R"
    by (simp add: totRX)
  have cntS: "fst (assign_dofs S) + n_dirichlet_constrained S = total_local_coefficients S"
    using assign_dofs_count_sum [of S] by simp
  from cntS cntR ndR tot have "fst (assign_dofs S) < fst (assign_dofs R)"
    by linarith
  then have more: "get_num_dofs S < get_num_dofs R"
    by (simp add: cur curR)
  have int_id: "int (get_num_dofs R) =
      int (total_local_coefficients R) - int (n_dirichlet_constrained R)"
    using cntR curR by linarith
  have frame: "\<forall>b. b \<noteq> r \<longrightarrow> spaces h' b = spaces h b"
    by (simp add: h'_def)
  have "spaces h' a = Some S" using ra co by (simp add: h'_def)
  moreover have "spaces h' r = Some R" by (simp add: h'_def)
  ultimately show ?thesis
    using run ra frame shR shX curR int_id ndR tot more by auto
qed

theorem construct_refined_space_more_dofs_witness:
  "spaces test_heap 0 = Some (snd (assign_dofs test_space)) \<and> 0 < next_free test_heap \<and>
   space_wf (snd (assign_dofs test_space)) \<and> (0::nat) < 1 \<and>
   get_num_dofs (snd (assign_dofs test_space)) = fst (assign_dofs (snd (assign_dofs test_space))) \<and>
   get_num_dofs (snd (assign_dofs test_space)) = 2 \<and>
   (\<exists>r h' R. construct_refined_space Ref_hp 1 0 test_heap = Some (r, h') \<and> r \<noteq> 0 \<and>
      spaces h' 0 = Some (snd (assign_dofs test_space)) \<and> spaces h' r = Some R \<and>
      get_num_dofs R = fst (assign_dofs R) \<and> 2 < get_num_dofs R)"
proof -
  have co: "spaces test_heap 0 = Some (snd (assign_dofs test_space))"
    by (simp add: test_heap_def)
  have al: "0 < next_free test_heap"
    by (simp add: test_heap_def)
  have wf: "space_wf (snd (assign_dofs test_space))"
    using space_wf_test_space by (rule space_wf_assign_dofs)
  have cur: "get_num_dofs (snd (assign_dofs test_space)) =
      fst (assign_dofs (snd (assign_dofs test_space)))"
    by (simp add: assign_dofs_again get_num_dofs_assigned_test_space test_space_n_dof)
  have inc: "(0::nat) < 1" by simp
  from construct_refined_space_more_dofs [OF co al wf inc cur, of Ref_hp]
  obtain r h' R where "construct_refined_space Ref_hp 1 0 test_heap = Some (r, h')" "r \<noteq> 0"
    "spaces h' 0 = Some (snd (assign_dofs test_space))" "spaces h' r = Some R"
    "get_num_dofs R = fst (assign_dofs R)"
    "get_num_dofs (snd (assign_dofs test_space)) < get_num_dofs R"
    by blast
  then have "\<exists>r h' R. construct_refined_space Ref_hp 1 0 test_heap = Some (r, h') \<and> r \<noteq> 0 \<and>
      spaces h' 0 = Some (snd (assign_dofs test_space)) \<and> spaces h' r = Some R \<and>
      get_num_dofs R = fst (assign_dofs R) \<and> 2 < get_num_dofs R"
    by (auto simp: get_num_dofs_assigned_test_space)
  with co al wf cur show ?thesis
    by (simp add: get_num_dofs_assigned_test_space)
qed

end
